theory Spec2Isabelle
  imports Main "HOL-Library.Word"
begin

section \<open>Strings of the host language\<close>

text \<open>
  A JavaScript string is a sequence of 16-bit code units, and its length and its
  indices count code units. \<open>str\<close> writes the string of an ASCII literal. The
  string operations the EPUB code calls are written out with the behaviour the
  language gives them: \<open>split\<close> always returns at least one piece, \<open>join\<close> of the
  empty array is the empty string, \<open>substring\<close> clamps both arguments into the
  string and swaps them when they are out of order, \<open>indexOf\<close> clamps its start
  position and answers \<open>-1\<close> when there is no occurrence, \<open>lastIndexOf\<close> answers
  \<open>-1\<close> likewise, \<open>trim\<close> removes the white space and line terminators of the
  language at both ends. Numbers are integers.
\<close>

type_synonym code_unit = "16 word"
type_synonym js_string = "code_unit list"

definition str :: "string \<Rightarrow> js_string" where
  "str s = map of_char s"

abbreviation SLASH :: code_unit where
  "SLASH \<equiv> 0x2F"

abbreviation HASH :: code_unit where
  "HASH \<equiv> 0x23"

fun split_acc :: "code_unit \<Rightarrow> js_string \<Rightarrow> js_string \<Rightarrow> js_string list" where
  "split_acc sep cur [] = [cur]"
| "split_acc sep cur (c # cs) =
     (if c = sep then cur # split_acc sep [] cs else split_acc sep (cur @ [c]) cs)"

definition js_split :: "code_unit \<Rightarrow> js_string \<Rightarrow> js_string list" where
  "js_split sep s = split_acc sep [] s"

fun js_join :: "js_string \<Rightarrow> js_string list \<Rightarrow> js_string" where
  "js_join sep [] = []"
| "js_join sep [x] = x"
| "js_join sep (x # y # ys) = x @ sep @ js_join sep (y # ys)"

definition js_substring :: "js_string \<Rightarrow> int \<Rightarrow> int \<Rightarrow> js_string" where
  "js_substring s start end =
     (let len = int (length s);
          finalStart = min (max start 0) len;
          finalEnd = min (max end 0) len;
          from = min finalStart finalEnd;
          to = max finalStart finalEnd
      in take (nat (to - from)) (drop (nat from) s))"

fun find_from :: "js_string \<Rightarrow> js_string \<Rightarrow> nat \<Rightarrow> nat option" where
  "find_from q [] k = (if q = [] then Some k else None)"
| "find_from q (c # cs) k =
     (if take (length q) (c # cs) = q then Some k else find_from q cs (Suc k))"

definition indexOf :: "js_string \<Rightarrow> js_string \<Rightarrow> int \<Rightarrow> int" where
  "indexOf s searchString position =
     (let start = nat (min (max position 0) (int (length s)))
      in case find_from searchString (drop start s) start of
           Some k \<Rightarrow> int k
         | None \<Rightarrow> - 1)"

definition lastIndexOf :: "js_string \<Rightarrow> code_unit \<Rightarrow> int" where
  "lastIndexOf s c =
     (case find (\<lambda>i. s ! i = c) (rev [0..<length s]) of
        Some i \<Rightarrow> int i
      | None \<Rightarrow> - 1)"

text \<open>
  The code units \<open>trim\<close> removes: tab, line feed, vertical tab, form feed,
  carriage return, space, no-break space, the other space separators, the line and
  paragraph separators and the byte order mark.
\<close>

definition is_space :: "code_unit \<Rightarrow> bool" where
  "is_space c =
     (c \<in> set [0x09, 0x0A, 0x0B, 0x0C, 0x0D, 0x20, 0xA0, 0x1680,
               0x2000, 0x2001, 0x2002, 0x2003, 0x2004, 0x2005, 0x2006, 0x2007,
               0x2008, 0x2009, 0x200A, 0x2028, 0x2029, 0x202F, 0x205F, 0x3000, 0xFEFF])"

definition trim :: "js_string \<Rightarrow> js_string" where
  "trim s = rev (dropWhile is_space (rev (dropWhile is_space s)))"

fun decimal :: "nat \<Rightarrow> js_string" where
  "decimal n =
     (if n < 10 then [of_nat (48 + n)]
      else decimal (n div 10) @ [of_nat (48 + n mod 10)])"

definition number_to_string :: "int \<Rightarrow> js_string" where
  "number_to_string i = (if i < 0 then 0x2D # decimal (nat (- i)) else decimal (nat i))"

section \<open>Path normalizer\<close>

text \<open>
  \<^verbatim>\<open>_normalizePath\<close>: the loop body is \<open>normalize_step\<close>, the stack is a list
  whose last element is the top (\<open>push\<close> appends, \<open>pop\<close> removes the last element
  and is guarded by \<open>stack.length > 0\<close>).
\<close>

definition normalize_step :: "js_string list \<Rightarrow> js_string \<Rightarrow> js_string list" where
  "normalize_step stack part =
     (if part = str ''.'' \<or> part = [] then stack
      else if part = str ''..'' then (if length stack > 0 then butlast stack else stack)
      else stack @ [part])"

definition normalizePath :: "js_string \<Rightarrow> js_string" where
  "normalizePath filePath =
     js_join (str ''/'') (foldl normalize_step [] (js_split SLASH filePath))"

section \<open>Archive entries, the reader handle and errors\<close>

text \<open>
  An entry of the zip library has a file name and, unless it is a directory, a
  \<open>getData\<close> method. Reading the data is a promise that may reject (a corrupt or
  encrypted entry): \<open>GetData None\<close>. An archive is the list of entries that
  \<open>getEntries\<close> returned, the same for every download of the book during one
  operation. The reader handle counts the calls of \<open>close\<close>. Every thrown
  error is a value.
\<close>

datatype entry_data = Directory | GetData "js_string option"

record entry =
  filename :: js_string
  data :: entry_data

record reader =
  closes :: nat

definition new_ZipReader :: reader where
  "new_ZipReader = \<lparr>closes = 0\<rparr>"

definition close :: "reader \<Rightarrow> reader" where
  "close r = r\<lparr>closes := closes r + 1\<rparr>"

datatype error =
    MissingContainer
  | NoRootFile
  | MissingOpf js_string
  | FileNotFound js_string
  | ReadFailure
  | RegExpSyntaxError
  | TypeError

section \<open>Library calls\<close>

text \<open>
  The code reads the XML documents with regular expressions, decodes hrefs with
  \<open>decodeURIComponent\<close> and folds case with \<open>toLowerCase\<close>. These library calls
  enter the model as the fields of a \<open>scanner\<close>: each field is one call site and
  returns what the code takes from the call. Everything proved below holds for
  every scanner.
  \<^item> \<open>fullPathMatch\<close>: group 1 of \<^verbatim>\<open>/full-path="([^"]+)"/\<close> on the container document;
  \<^item> \<open>itemMatches\<close>: the successive matches of the manifest item expression, each
    with the alternative that matched;
  \<^item> \<open>decodeURIComponent\<close>: \<open>None\<close> when it throws;
  \<^item> \<open>itemrefMatches\<close>: group 1 of the successive spine matches;
  \<^item> \<open>ncxMatch1\<close>, \<open>ncxMatch2\<close>: group 1 of the two media-type expressions;
  \<^item> \<open>ncxHrefMatch1\<close>, \<open>ncxHrefMatch2\<close>: the two expressions built from the id found
    (arguments: the id, the package document); building one may throw;
  \<^item> \<open>navPointMatches\<close>: groups 1 and 2 of the successive navigation-point matches;
  \<^item> \<open>navMatch1\<close>, \<open>navMatch2\<close>: group 1 of the two \<open>properties\<close> expressions;
  \<^item> \<open>linkMatches\<close>: groups 1 and 2 of the successive hyperlink matches;
  \<^item> \<open>stripTags\<close>: \<^verbatim>\<open>replace(/<[^>]+>/g, "")\<close>;
  \<^item> \<open>markdownOf\<close>: the replacement chain of \<open>htmlToMarkdown\<close> with its final trim;
  \<^item> \<open>lowerCase\<close>: the case folding of the language on a non-empty string; it may
    change the number of code units.
\<close>

datatype item_match = HrefFirst js_string js_string | IdFirst js_string js_string

datatype regexp_result = SyntaxError | NoMatch | Match js_string

record scanner =
  fullPathMatch :: "js_string \<Rightarrow> js_string option"
  itemMatches :: "js_string \<Rightarrow> item_match list"
  decodeURIComponent :: "js_string \<Rightarrow> js_string option"
  itemrefMatches :: "js_string \<Rightarrow> js_string list"
  ncxMatch1 :: "js_string \<Rightarrow> js_string option"
  ncxMatch2 :: "js_string \<Rightarrow> js_string option"
  ncxHrefMatch1 :: "js_string \<Rightarrow> js_string \<Rightarrow> regexp_result"
  ncxHrefMatch2 :: "js_string \<Rightarrow> js_string \<Rightarrow> regexp_result"
  navPointMatches :: "js_string \<Rightarrow> (js_string \<times> js_string) list"
  navMatch1 :: "js_string \<Rightarrow> js_string option"
  navMatch2 :: "js_string \<Rightarrow> js_string option"
  linkMatches :: "js_string \<Rightarrow> (js_string \<times> js_string) list"
  stripTags :: "js_string \<Rightarrow> js_string"
  markdownOf :: "js_string \<Rightarrow> js_string"
  lowerCase :: "js_string \<Rightarrow> js_string"

text \<open>\<open>a || b\<close> on two match results: the first one unless it is \<open>null\<close>.\<close>

definition or_else :: "'a option \<Rightarrow> 'a option \<Rightarrow> 'a option" where
  "or_else a b = (case a of Some x \<Rightarrow> Some x | None \<Rightarrow> b)"

text \<open>\<open>toLowerCase\<close>: the empty string folds to the empty string.\<close>

definition toLowerCase :: "scanner \<Rightarrow> js_string \<Rightarrow> js_string" where
  "toLowerCase sc s = (if s = [] then [] else lowerCase sc s)"

section \<open>Plain objects used as dictionaries\<close>

text \<open>
  The manifest is a plain object \<open>{}\<close> indexed by identifier. Its own properties
  are a finite map to strings. Reading \<open>obj[key]\<close> answers the own property when
  there is one, otherwise the property of that name which every object inherits
  from its prototype (a function, or the prototype itself for \<open>__proto__\<close>),
  otherwise \<open>undefined\<close>. Writing \<open>obj[key] = s\<close> creates or replaces the own
  property, except for the key \<open>__proto__\<close>, whose inherited setter ignores a
  string. Used as a condition, \<open>undefined\<close> and the empty string are false and
  every other value is true.
\<close>

datatype js_value = Str js_string | Inherited js_string

definition object_prototype_names :: "js_string list" where
  "object_prototype_names =
     map str [''constructor'', ''__defineGetter__'', ''__defineSetter__'', ''hasOwnProperty'',
              ''__lookupGetter__'', ''__lookupSetter__'', ''isPrototypeOf'',
              ''propertyIsEnumerable'', ''toString'', ''valueOf'', ''__proto__'',
              ''toLocaleString'']"

definition set_property ::
  "(js_string \<rightharpoonup> js_string) \<Rightarrow> js_string \<Rightarrow> js_string \<Rightarrow> (js_string \<rightharpoonup> js_string)" where
  "set_property obj key v = (if key = str ''__proto__'' then obj else obj(key \<mapsto> v))"

definition get_property :: "(js_string \<rightharpoonup> js_string) \<Rightarrow> js_string \<Rightarrow> js_value option" where
  "get_property obj key =
     (case obj key of
        Some v \<Rightarrow> Some (Str v)
      | None \<Rightarrow> if key \<in> set object_prototype_names then Some (Inherited key) else None)"

definition truthy :: "js_value option \<Rightarrow> bool" where
  "truthy v = (case v of None \<Rightarrow> False | Some (Str s) \<Rightarrow> s \<noteq> [] | Some (Inherited n) \<Rightarrow> True)"

section \<open>getEpubFile\<close>

datatype response_type = Text | Buffer

definition getEpubFile ::
  "entry list \<Rightarrow> js_string \<Rightarrow> response_type \<Rightarrow> (error + js_string) \<times> reader" where
  "getEpubFile entries filePath responseType =
     (let reader = new_ZipReader in
      case find (\<lambda>e. filename e = filePath) entries of
        None \<Rightarrow> (Inl (FileNotFound filePath), close reader)
      | Some file \<Rightarrow>
          (case data file of
             Directory \<Rightarrow> (Inl (FileNotFound filePath), close reader)
           | GetData d \<Rightarrow>
               (case responseType of
                  Buffer \<Rightarrow> (case d of None \<Rightarrow> (Inl ReadFailure, reader)
                                      | Some result \<Rightarrow> (Inr result, close reader))
                | Text \<Rightarrow> (case d of None \<Rightarrow> (Inl ReadFailure, reader)
                                    | Some result \<Rightarrow> (Inr result, close reader)))))"

definition getChapterContent :: "entry list \<Rightarrow> js_string \<Rightarrow> error + js_string" where
  "getChapterContent entries chapterPath = fst (getEpubFile entries chapterPath Text)"

section \<open>Table of contents\<close>

text \<open>
  A table-of-contents entry and a chapter are both objects \<open>{title, path}\<close>.
\<close>

record titled =
  title :: js_string
  path :: js_string

type_synonym toc_entry = titled
type_synonym book_chapter = titled

definition strip_fragment :: "js_string \<Rightarrow> js_string" where
  "strip_fragment href =
     (if HASH \<in> set href then hd (js_split HASH href) else href)"

definition toc_push :: "toc_entry list \<Rightarrow> js_string \<Rightarrow> js_string \<Rightarrow> toc_entry list" where
  "toc_push toc label fullPath =
     (case find (\<lambda>t. path t = fullPath) toc of
        None \<Rightarrow> toc @ [\<lparr>title = label, path = fullPath\<rparr>]
      | Some t \<Rightarrow> toc)"

fun navPoint_loop ::
  "js_string \<Rightarrow> (js_string \<times> js_string) list \<Rightarrow> toc_entry list \<Rightarrow> toc_entry list" where
  "navPoint_loop opfDir [] toc = toc"
| "navPoint_loop opfDir ((m1, m2) # rest) toc =
     (let label = trim m1;
          href = strip_fragment m2;
          fullPath = normalizePath (opfDir @ href)
      in navPoint_loop opfDir rest (toc_push toc label fullPath))"

fun link_loop ::
  "scanner \<Rightarrow> js_string \<Rightarrow> (js_string \<times> js_string) list \<Rightarrow> toc_entry list
     \<Rightarrow> toc_entry list" where
  "link_loop sc opfDir [] toc = toc"
| "link_loop sc opfDir ((m1, m2) # rest) toc =
     (let href = strip_fragment m1;
          fullPath = normalizePath (opfDir @ href);
          label = trim (stripTags sc m2)
      in link_loop sc opfDir rest (toc_push toc label fullPath))"

definition read_ncx ::
  "scanner \<Rightarrow> entry list \<Rightarrow> js_string \<Rightarrow> js_string \<Rightarrow> error + toc_entry list" where
  "read_ncx sc entries opfDir ncxHref =
     (let ncxPath = opfDir @ ncxHref in
      case find (\<lambda>e. filename e = ncxPath) entries of
        None \<Rightarrow> Inr []
      | Some ncxEntry \<Rightarrow>
          (case data ncxEntry of
             Directory \<Rightarrow> Inr []
           | GetData None \<Rightarrow> Inl ReadFailure
           | GetData (Some ncxXml) \<Rightarrow>
               Inr (navPoint_loop opfDir (navPointMatches sc ncxXml) [])))"

definition legacy_tier ::
  "scanner \<Rightarrow> entry list \<Rightarrow> js_string \<Rightarrow> js_string \<Rightarrow> error + toc_entry list" where
  "legacy_tier sc entries opfXml opfDir =
     (case or_else (ncxMatch1 sc opfXml) (ncxMatch2 sc opfXml) of
        None \<Rightarrow> Inr []
      | Some ncxId \<Rightarrow>
          (case ncxHrefMatch1 sc ncxId opfXml of
             SyntaxError \<Rightarrow> Inl RegExpSyntaxError
           | Match ncxHref \<Rightarrow> read_ncx sc entries opfDir ncxHref
           | NoMatch \<Rightarrow>
               (case ncxHrefMatch2 sc ncxId opfXml of
                  SyntaxError \<Rightarrow> Inl RegExpSyntaxError
                | Match ncxHref \<Rightarrow> read_ncx sc entries opfDir ncxHref
                | NoMatch \<Rightarrow> Inr [])))"

definition read_nav ::
  "scanner \<Rightarrow> entry list \<Rightarrow> js_string \<Rightarrow> js_string \<Rightarrow> toc_entry list
     \<Rightarrow> error + toc_entry list" where
  "read_nav sc entries opfDir navHref toc =
     (let navPath = normalizePath (opfDir @ navHref) in
      case find (\<lambda>e. filename e = navPath) entries of
        None \<Rightarrow> Inr toc
      | Some navEntry \<Rightarrow>
          (case data navEntry of
             Directory \<Rightarrow> Inr toc
           | GetData None \<Rightarrow> Inl ReadFailure
           | GetData (Some navXml) \<Rightarrow>
               Inr (link_loop sc opfDir (linkMatches sc navXml) toc)))"

definition modern_tier ::
  "scanner \<Rightarrow> entry list \<Rightarrow> js_string \<Rightarrow> js_string \<Rightarrow> toc_entry list
     \<Rightarrow> error + toc_entry list" where
  "modern_tier sc entries opfXml opfDir toc =
     (case or_else (navMatch1 sc opfXml) (navMatch2 sc opfXml) of
        None \<Rightarrow> Inr toc
      | Some navHref \<Rightarrow> read_nav sc entries opfDir navHref toc)"

definition getTOCFromEntries ::
  "scanner \<Rightarrow> entry list \<Rightarrow> js_string \<Rightarrow> js_string \<Rightarrow> error + toc_entry list" where
  "getTOCFromEntries sc entries opfXml opfDir =
     (case legacy_tier sc entries opfXml opfDir of
        Inl e \<Rightarrow> Inl e
      | Inr toc \<Rightarrow>
          if length toc = 0 then modern_tier sc entries opfXml opfDir toc else Inr toc)"

section \<open>getChapters\<close>

definition dir_of :: "js_string \<Rightarrow> js_string" where
  "dir_of opfPath =
     (if SLASH \<in> set opfPath
      then js_substring opfPath 0 (lastIndexOf opfPath SLASH + 1)
      else [])"

definition openPackage ::
  "scanner \<Rightarrow> entry list \<Rightarrow> reader \<Rightarrow> (error + js_string \<times> js_string) \<times> reader" where
  "openPackage sc entries reader =
     (case find (\<lambda>e. filename e = str ''META-INF/container.xml'') entries of
        None \<Rightarrow> (Inl MissingContainer, close reader)
      | Some containerEntry \<Rightarrow>
          (case data containerEntry of
             Directory \<Rightarrow> (Inl MissingContainer, close reader)
           | GetData None \<Rightarrow> (Inl ReadFailure, reader)
           | GetData (Some containerXml) \<Rightarrow>
               (case fullPathMatch sc containerXml of
                  None \<Rightarrow> (Inl NoRootFile, close reader)
                | Some opfPath \<Rightarrow>
                    (let opfDir = dir_of opfPath in
                     case find (\<lambda>e. filename e = opfPath) entries of
                       None \<Rightarrow> (Inl (MissingOpf opfPath), close reader)
                     | Some opfEntry \<Rightarrow>
                         (case data opfEntry of
                            Directory \<Rightarrow> (Inl (MissingOpf opfPath), close reader)
                          | GetData None \<Rightarrow> (Inl ReadFailure, reader)
                          | GetData (Some opfXml) \<Rightarrow> (Inr (opfDir, opfXml), reader))))))"

text \<open>
  The item expression has two alternatives, each with two non-empty groups, so
  \<open>itemMatch[2] || itemMatch[3]\<close> and \<open>itemMatch[1] || itemMatch[4]\<close> select the
  groups of the alternative that matched.
\<close>

definition item_id :: "item_match \<Rightarrow> js_string" where
  "item_id itemMatch = (case itemMatch of HrefFirst g1 g2 \<Rightarrow> g2 | IdFirst g3 g4 \<Rightarrow> g3)"

definition item_href :: "item_match \<Rightarrow> js_string" where
  "item_href itemMatch = (case itemMatch of HrefFirst g1 g2 \<Rightarrow> g1 | IdFirst g3 g4 \<Rightarrow> g4)"

fun build_manifest ::
  "scanner \<Rightarrow> js_string \<Rightarrow> item_match list \<Rightarrow> (js_string \<rightharpoonup> js_string)
     \<Rightarrow> (js_string \<rightharpoonup> js_string)" where
  "build_manifest sc opfDir [] manifest = manifest"
| "build_manifest sc opfDir (itemMatch # rest) manifest =
     (let id = item_id itemMatch;
          href = item_href itemMatch;
          decodedHref = (case decodeURIComponent sc href of Some d \<Rightarrow> d | None \<Rightarrow> href)
      in build_manifest sc opfDir rest
           (set_property manifest id (normalizePath (opfDir @ decodedHref))))"

text \<open>
  The spine holds whatever \<open>manifest[idref]\<close> answered when it counted as true: a
  path, or an inherited property.
\<close>

fun build_spine ::
  "(js_string \<rightharpoonup> js_string) \<Rightarrow> js_string list \<Rightarrow> js_value list \<Rightarrow> js_value list" where
  "build_spine manifest [] spine = spine"
| "build_spine manifest (idref # rest) spine =
     build_spine manifest rest
       (if truthy (get_property manifest idref)
        then (case get_property manifest idref of Some v \<Rightarrow> spine @ [v] | None \<Rightarrow> spine)
        else spine)"

text \<open>
  The chapter object built for a path, and the callback of \<open>spine.map\<close>: on a
  value that is not a string no entry of the table of contents is equal to it and
  \<open>path.split\<close> is not a function, which throws.
\<close>

definition chapter_of :: "toc_entry list \<Rightarrow> js_string \<Rightarrow> book_chapter" where
  "chapter_of toc p =
     (let tocEntry = find (\<lambda>t. path t = p) toc
      in \<lparr>title = (case tocEntry of Some t \<Rightarrow> title t
                                | None \<Rightarrow> last (js_split SLASH p)),
          path = p\<rparr>)"

definition spine_callback :: "toc_entry list \<Rightarrow> js_value \<Rightarrow> error + book_chapter" where
  "spine_callback toc v =
     (case v of Str p \<Rightarrow> Inr (chapter_of toc p) | Inherited n \<Rightarrow> Inl TypeError)"

fun map_spine :: "toc_entry list \<Rightarrow> js_value list \<Rightarrow> error + book_chapter list" where
  "map_spine toc [] = Inr []"
| "map_spine toc (v # vs) =
     (case spine_callback toc v of
        Inl e \<Rightarrow> Inl e
      | Inr c \<Rightarrow> (case map_spine toc vs of Inl e \<Rightarrow> Inl e | Inr cs \<Rightarrow> Inr (c # cs)))"

definition manifest_of ::
  "scanner \<Rightarrow> js_string \<Rightarrow> js_string \<Rightarrow> (js_string \<rightharpoonup> js_string)" where
  "manifest_of sc opfDir opfXml = build_manifest sc opfDir (itemMatches sc opfXml) Map.empty"

definition spine_of :: "scanner \<Rightarrow> js_string \<Rightarrow> js_string \<Rightarrow> js_value list" where
  "spine_of sc opfDir opfXml =
     build_spine (manifest_of sc opfDir opfXml) (itemrefMatches sc opfXml) []"

definition getChapters :: "scanner \<Rightarrow> entry list \<Rightarrow> (error + book_chapter list) \<times> reader" where
  "getChapters sc entries =
     (case openPackage sc entries new_ZipReader of
        (Inl e, reader) \<Rightarrow> (Inl e, reader)
      | (Inr (opfDir, opfXml), reader) \<Rightarrow>
          (let spine = spine_of sc opfDir opfXml
           in case getTOCFromEntries sc entries opfXml opfDir of
                Inl e \<Rightarrow> (Inl e, reader)
              | Inr toc \<Rightarrow>
                  (case map_spine toc spine of
                     Inl e \<Rightarrow> (Inl e, reader)
                   | Inr chapters \<Rightarrow> (Inr chapters, close reader))))"

section \<open>Chunked reading\<close>

text \<open>
  The body of the \<^verbatim>\<open>get_chapter_content_markdown\<close> case after the chapter
  text has been fetched; absent arguments take the defaults \<open>0\<close> and \<open>30000\<close>.
\<close>

definition continuation_marker :: "int \<Rightarrow> js_string" where
  "continuation_marker next =
     [0x0A, 0x0A] @ str ''... (truncated, use offset '' @ number_to_string next
       @ str '' to read more)''"

definition chunk :: "js_string \<Rightarrow> int option \<Rightarrow> int option \<Rightarrow> js_string" where
  "chunk text offsetArg lengthArg =
     (let offset = (case offsetArg of Some v \<Rightarrow> v | None \<Rightarrow> 0);
          len = (case lengthArg of Some v \<Rightarrow> v | None \<Rightarrow> 30000);
          totalLength = int (length text);
          content = js_substring text offset (offset + len)
      in if totalLength > offset + len
         then content @ continuation_marker (offset + len)
         else content)"

section \<open>Search in a book\<close>

record hit =
  chapterTitle :: js_string
  chapterPath :: js_string
  markdownOffset :: int
  snippet :: js_string

definition htmlToMarkdown :: "scanner \<Rightarrow> js_string \<Rightarrow> js_string" where
  "htmlToMarkdown sc html = (if html = [] then [] else markdownOf sc html)"

definition make_hit :: "book_chapter \<Rightarrow> js_string \<Rightarrow> js_string \<Rightarrow> int \<Rightarrow> hit" where
  "make_hit chapter markdownContent query index =
     (let snippetWindow = 200;
          start = max 0 (index - snippetWindow);
          end = min (int (length markdownContent)) (index + int (length query) + snippetWindow)
      in \<lparr>chapterTitle = title chapter,
          chapterPath = path chapter,
          markdownOffset = index,
          snippet = js_substring markdownContent start end\<rparr>)"

text \<open>
  The inner \<open>while\<close> loop. Every iteration that does not leave the loop has
  pushed a hit and found fewer than 50 of them, which is what bounds it.
\<close>

function scan ::
  "js_string \<Rightarrow> js_string \<Rightarrow> book_chapter \<Rightarrow> js_string \<Rightarrow> js_string \<Rightarrow> int \<Rightarrow> hit list
     \<Rightarrow> hit list" where
  "scan lowerMarkdown lowerQuery chapter markdownContent query index results =
     (let index' = indexOf lowerMarkdown lowerQuery (index + 1) in
      if index' = - 1 then results
      else
        let results' = results @ [make_hit chapter markdownContent query index'] in
        if length results' \<ge> 50 then results'
        else scan lowerMarkdown lowerQuery chapter markdownContent query index' results')"
  by pat_completeness auto
termination
  by (relation "measure (\<lambda>(lm, lq, ch, m, q, i, rs). 50 - length rs)") auto

declare scan.simps [simp del]

text \<open>
  An occurrence of \<open>q\<close> in \<open>s\<close> at position \<open>k\<close>, in the words of the
  specification (a literal substring occurrence).
\<close>

definition occurs_at :: "js_string \<Rightarrow> js_string \<Rightarrow> nat \<Rightarrow> bool" where
  "occurs_at s q k = (k + length q \<le> length s \<and> take (length q) (drop k s) = q)"

fun search_chapters ::
  "scanner \<Rightarrow> entry list \<Rightarrow> js_string \<Rightarrow> js_string \<Rightarrow> book_chapter list \<Rightarrow> hit list
     \<Rightarrow> error + hit list" where
  "search_chapters sc entries query lowerQuery [] results = Inr results"
| "search_chapters sc entries query lowerQuery (chapter # rest) results =
     (case getChapterContent entries (path chapter) of
        Inl e \<Rightarrow> Inl e
      | Inr content \<Rightarrow>
          (let markdownContent = htmlToMarkdown sc content;
               lowerMarkdown = toLowerCase sc markdownContent;
               results' = scan lowerMarkdown lowerQuery chapter markdownContent query (- 1) results
           in if length results' \<ge> 50 then Inr results'
              else search_chapters sc entries query lowerQuery rest results'))"

definition searchInBook :: "scanner \<Rightarrow> entry list \<Rightarrow> js_string \<Rightarrow> error + hit list" where
  "searchInBook sc entries query =
     (case fst (getChapters sc entries) of
        Inl e \<Rightarrow> Inl e
      | Inr chapters \<Rightarrow> search_chapters sc entries query (toLowerCase sc query) chapters [])"

section \<open>First entry per path, in the words of the specification\<close>

text \<open>
  The specification describes a tier as: take the matches in document order, strip
  a \<open>#\<close>-fragment from the href, normalize the path against the package
  directory, keep the first entry of each path. \<open>legacy_entry\<close> and
  \<open>modern_entry\<close> build the entry of one match that way, \<open>first_per_path\<close> drops
  the later entries of a path. The loops of the code are compared with them below.
\<close>

definition legacy_entry :: "js_string \<Rightarrow> js_string \<times> js_string \<Rightarrow> toc_entry" where
  "legacy_entry opfDir m =
     \<lparr>title = trim (fst m),
      path = normalizePath (opfDir @ takeWhile (\<lambda>c. c \<noteq> HASH) (snd m))\<rparr>"

definition modern_entry :: "scanner \<Rightarrow> js_string \<Rightarrow> js_string \<times> js_string \<Rightarrow> toc_entry" where
  "modern_entry sc opfDir m =
     \<lparr>title = trim (stripTags sc (snd m)),
      path = normalizePath (opfDir @ takeWhile (\<lambda>c. c \<noteq> HASH) (fst m))\<rparr>"

fun first_per_path :: "toc_entry list \<Rightarrow> toc_entry list" where
  "first_per_path [] = []"
| "first_per_path (t # ts) = t # first_per_path (filter (\<lambda>u. path u \<noteq> path t) ts)"

section \<open>Sample archives\<close>

text \<open>
  Small documents and a scanner that answers on them as the library calls of the
  code do, used to run the model on concrete archives. The sample case folding
  is the one of the language on the code units the samples use: the letters \<open>A\<close> to
  \<open>Z\<close>, and the capital I with dot above (code unit \<open>0x130\<close>), whose lower case is
  \<open>i\<close> followed by the combining dot above (\<open>0x69\<close>, \<open>0x307\<close>).
\<close>

definition sample_container :: js_string where
  "sample_container = str ''<rootfile full-path=OEBPS/content.opf/>''"

definition scenario_opf :: js_string where
  "scenario_opf = str ''<item id=ch1 href=text/ch01.html/><itemref idref=ch1/>''"

definition book_opf :: js_string where
  "book_opf = str ''<item id=ncx href=toc.ncx media-type=application/x-dtbncx+xml/>''
     @ str ''<item id=ch1 href=text/ch01.html/><item href=text/../text/ch02.html id=ch2/>''
     @ str ''<itemref idref=ch1/><itemref idref=gone/><itemref idref=ch2/><itemref idref=ch1/>''"

definition book_ncx :: js_string where
  "book_ncx = str ''<navPoint><text> Chapter One </text><content src=text/ch01.html#top/>''
     @ str ''<navPoint><text>Again</text><content src=text/./ch01.html/>''"

definition nav_opf :: js_string where
  "nav_opf = str ''<item id=nav href=nav.xhtml properties=nav/>''
     @ str ''<item id=ch1 href=text/ch01.html/><itemref idref=ch1/>''"

definition book_nav :: js_string where
  "book_nav = str ''<a href=text/ch01.html#s1><b>One</b></a><a href=text/ch01.html#s2>Two</a>''"

definition empty_opf :: js_string where
  "empty_opf = str ''<package/>''"

definition parent_opf :: js_string where
  "parent_opf = str ''<item id=up href=../><itemref idref=up/>''"

definition constructor_opf :: js_string where
  "constructor_opf = str ''<itemref idref=constructor/>''"

definition sample_fold :: "js_string \<Rightarrow> js_string" where
  "sample_fold s =
     concat (map (\<lambda>c. if 0x41 \<le> c \<and> c \<le> 0x5A then [c + 0x20]
                       else if c = 0x130 then [0x69, 0x307]
                       else [c]) s)"

definition sample_scanner :: scanner where
  "sample_scanner =
     \<lparr>fullPathMatch = (\<lambda>xml.
        if xml = sample_container then Some (str ''OEBPS/content.opf'') else None),
      itemMatches = (\<lambda>xml.
        if xml = scenario_opf then [IdFirst (str ''ch1'') (str ''text/ch01.html'')]
        else if xml = book_opf
        then [IdFirst (str ''ncx'') (str ''toc.ncx''),
              IdFirst (str ''ch1'') (str ''text/ch01.html''),
              HrefFirst (str ''text/../text/ch02.html'') (str ''ch2'')]
        else if xml = nav_opf
        then [IdFirst (str ''nav'') (str ''nav.xhtml''),
              IdFirst (str ''ch1'') (str ''text/ch01.html'')]
        else if xml = parent_opf then [IdFirst (str ''up'') (str ''..'')]
        else []),
      decodeURIComponent = (\<lambda>href. Some href),
      itemrefMatches = (\<lambda>xml.
        if xml = scenario_opf then [str ''ch1'']
        else if xml = book_opf then [str ''ch1'', str ''gone'', str ''ch2'', str ''ch1'']
        else if xml = nav_opf then [str ''ch1'']
        else if xml = parent_opf then [str ''up'']
        else if xml = constructor_opf then [str ''constructor'']
        else []),
      ncxMatch1 = (\<lambda>xml. if xml = book_opf then Some (str ''ncx'') else None),
      ncxMatch2 = (\<lambda>xml. None),
      ncxHrefMatch1 = (\<lambda>ncxId xml.
        if ncxId = str ''ncx'' \<and> xml = book_opf then Match (str ''toc.ncx'') else NoMatch),
      ncxHrefMatch2 = (\<lambda>ncxId xml. NoMatch),
      navPointMatches = (\<lambda>xml.
        if xml = book_ncx
        then [(str '' Chapter One '', str ''text/ch01.html#top''),
              (str ''Again'', str ''text/./ch01.html'')]
        else []),
      navMatch1 = (\<lambda>xml. if xml = nav_opf then Some (str ''nav.xhtml'') else None),
      navMatch2 = (\<lambda>xml. None),
      linkMatches = (\<lambda>xml.
        if xml = book_nav
        then [(str ''text/ch01.html#s1'', str ''<b>One</b>''),
              (str ''text/ch01.html#s2'', str ''Two'')]
        else []),
      stripTags = (\<lambda>s. if s = str ''<b>One</b>'' then str ''One'' else s),
      markdownOf = trim,
      lowerCase = sample_fold\<rparr>"

definition file_entry :: "js_string \<Rightarrow> js_string \<Rightarrow> entry" where
  "file_entry name text = \<lparr>filename = name, data = GetData (Some text)\<rparr>"

definition container_entry :: entry where
  "container_entry = file_entry (str ''META-INF/container.xml'') sample_container"

definition scenario_archive :: "entry list" where
  "scenario_archive =
     [container_entry, file_entry (str ''OEBPS/content.opf'') scenario_opf]"

definition book_archive :: "entry list" where
  "book_archive =
     [container_entry,
      file_entry (str ''OEBPS/content.opf'') book_opf,
      file_entry (str ''OEBPS/toc.ncx'') book_ncx,
      file_entry (str ''OEBPS/text/ch01.html'') (str ''Aaa''),
      file_entry (str ''OEBPS/text/ch02.html'') (str ''b'')]"

definition first_chapter_missing_archive :: "entry list" where
  "first_chapter_missing_archive =
     [container_entry,
      file_entry (str ''OEBPS/content.opf'') book_opf,
      file_entry (str ''OEBPS/text/ch02.html'') (str ''b'')]"

definition nav_archive :: "entry list" where
  "nav_archive =
     [container_entry,
      file_entry (str ''OEBPS/content.opf'') nav_opf,
      file_entry (str ''OEBPS/nav.xhtml'') book_nav,
      file_entry (str ''OEBPS/text/ch01.html'') (str ''Aaa'')]"

definition empty_book_archive :: "entry list" where
  "empty_book_archive =
     [container_entry, file_entry (str ''OEBPS/content.opf'') empty_opf]"


definition constructor_archive :: "entry list" where
  "constructor_archive =
     [container_entry, file_entry (str ''OEBPS/content.opf'') constructor_opf]"


definition dotted_capital_archive :: "entry list" where
  "dotted_capital_archive =
     [container_entry,
      file_entry (str ''OEBPS/content.opf'') scenario_opf,
      file_entry (str ''OEBPS/text/ch01.html'') [0x130]]"

definition unreadable_container_archive :: "entry list" where
  "unreadable_container_archive =
     [\<lparr>filename = str ''META-INF/container.xml'', data = GetData None\<rparr>]"

section \<open>Canonical paths\<close>

text \<open>
  A segment the normalizer keeps is non-empty, is neither \<open>.\<close> nor \<open>..\<close> and has
  no separator in it. A path is canonical when splitting it at \<open>/\<close> gives only
  such segments and it neither starts nor ends with \<open>/\<close>. \<open>stack_of\<close> is the stack
  \<^verbatim>\<open>_normalizePath\<close> has built when its loop ends.
\<close>

definition clean_seg :: "js_string \<Rightarrow> bool" where
  "clean_seg seg = (seg \<noteq> [] \<and> seg \<noteq> str ''.'' \<and> seg \<noteq> str ''..'' \<and> SLASH \<notin> set seg)"

definition canonical :: "js_string \<Rightarrow> bool" where
  "canonical p =
     (list_all (\<lambda>seg. seg \<noteq> [] \<and> seg \<noteq> str ''.'' \<and> seg \<noteq> str ''..'') (js_split SLASH p)
      \<and> p \<noteq> [] \<and> hd p \<noteq> SLASH \<and> last p \<noteq> SLASH)"

definition stack_of :: "js_string \<Rightarrow> js_string list" where
  "stack_of p = foldl normalize_step [] (js_split SLASH p)"

section \<open>Facts about splitting and joining\<close>

lemma split_acc_nonempty: "split_acc sep cur s \<noteq> []"
  by (induction s arbitrary: cur) auto

lemma split_acc_append:
  "split_acc sep cur (xs @ ys) =
     butlast (split_acc sep cur xs) @ split_acc sep (last (split_acc sep cur xs)) ys"
proof (induction xs arbitrary: cur)
  case Nil
  show ?case by simp
next
  case (Cons c xs)
  show ?case
  proof (cases "c = sep")
    case True
    then show ?thesis
      using Cons.IH [of "[]"] split_acc_nonempty [of sep "[]" xs] by simp
  next
    case False
    then show ?thesis using Cons.IH [of "cur @ [c]"] by simp
  qed
qed

lemma split_acc_tail_a_b_up_c:
  "split_acc SLASH cur (str ''a/b/../c'') = [cur @ str ''a'', str ''b'', str ''..'', str ''c'']"
  by (simp add: str_def)

lemma split_acc_tail_a_c:
  "split_acc SLASH cur (str ''a/c'') = [cur @ str ''a'', str ''c'']"
  by (simp add: str_def)

lemma ends_in_a_is_pushed:
  "normalize_step stack (l @ str ''a'') = stack @ [l @ str ''a'']"
proof -
  have "l @ str ''a'' \<noteq> str ''.''" "l @ str ''a'' \<noteq> []" "l @ str ''a'' \<noteq> str ''..''"
    by (auto simp: str_def append_eq_Cons_conv)
  then show ?thesis by (simp add: normalize_step_def)
qed

lemma split_acc_no_sep:
  "sep \<notin> set cur \<Longrightarrow> \<forall>seg \<in> set (split_acc sep cur s). sep \<notin> set seg"
proof (induction s arbitrary: cur)
  case Nil
  then show ?case by simp
next
  case (Cons c cs)
  show ?case
  proof (cases "c = sep")
    case True
    then show ?thesis using Cons.prems Cons.IH [of "[]"] by simp
  next
    case False
    then show ?thesis using Cons.prems Cons.IH [of "cur @ [c]"] by simp
  qed
qed

lemma split_acc_absorb:
  "sep \<notin> set x \<Longrightarrow> split_acc sep cur (x @ ys) = split_acc sep (cur @ x) ys"
  by (induction x arbitrary: cur) auto

lemma split_join:
  "stack \<noteq> [] \<Longrightarrow> \<forall>seg \<in> set stack. SLASH \<notin> set seg \<Longrightarrow>
   js_split SLASH (js_join (str ''/'') stack) = stack"
proof (induction stack)
  case Nil
  then show ?case by simp
next
  case (Cons x xs)
  show ?case
  proof (cases xs)
    case Nil
    then show ?thesis
      using Cons.prems split_acc_absorb [of "SLASH" x "[]" "[]"] by (simp add: js_split_def)
  next
    case (Cons y ys)
    then show ?thesis
      using Cons.prems Cons.IH
        split_acc_absorb [of "SLASH" x "[]" "SLASH # js_join (str ''/'') (y # ys)"]
      by (simp add: js_split_def str_def)
  qed
qed

lemma normalize_step_clean:
  "\<forall>seg \<in> set stack. clean_seg seg \<Longrightarrow> SLASH \<notin> set part \<Longrightarrow>
   \<forall>seg \<in> set (normalize_step stack part). clean_seg seg"
  by (auto simp: normalize_step_def clean_seg_def dest: in_set_butlastD)

lemma foldl_normalize_clean:
  "\<forall>seg \<in> set stack. clean_seg seg \<Longrightarrow> \<forall>part \<in> set parts. SLASH \<notin> set part \<Longrightarrow>
   \<forall>seg \<in> set (foldl normalize_step stack parts). clean_seg seg"
proof (induction parts arbitrary: stack)
  case Nil
  then show ?case by simp
next
  case (Cons part parts)
  have "\<forall>seg \<in> set (normalize_step stack part). clean_seg seg"
    using Cons.prems by (intro normalize_step_clean) auto
  then show ?case using Cons.IH Cons.prems by simp
qed

lemma foldl_normalize_pushes:
  "\<forall>seg \<in> set parts. clean_seg seg \<Longrightarrow> foldl normalize_step stack parts = stack @ parts"
  by (induction parts arbitrary: stack) (auto simp: normalize_step_def clean_seg_def)

lemma stack_of_clean: "\<forall>seg \<in> set (stack_of p). clean_seg seg"
  unfolding stack_of_def js_split_def
  using split_acc_no_sep [of "SLASH" "[]" p]
  by (intro foldl_normalize_clean) simp_all

lemma normalizePath_join_clean:
  assumes "\<forall>seg \<in> set stack. clean_seg seg"
  shows "normalizePath (js_join (str ''/'') stack) = js_join (str ''/'') stack"
proof (cases "stack = []")
  case True
  then show ?thesis by (simp add: normalizePath_def js_split_def normalize_step_def)
next
  case False
  have "js_split SLASH (js_join (str ''/'') stack) = stack"
    using False assms by (intro split_join) (auto simp: clean_seg_def)
  then show ?thesis
    using foldl_normalize_pushes [OF assms, of "[]"] by (simp add: normalizePath_def)
qed

lemma normalizePath_idem: "normalizePath (normalizePath p) = normalizePath p"
  using normalizePath_join_clean [OF stack_of_clean, of p]
  by (simp add: normalizePath_def stack_of_def)

lemma hd_join: "stack \<noteq> [] \<Longrightarrow> hd stack \<noteq> [] \<Longrightarrow> hd (js_join sep stack) = hd (hd stack)"
  by (induction sep stack rule: js_join.induct) auto

lemma join_last_nonempty: "stack \<noteq> [] \<Longrightarrow> last stack \<noteq> [] \<Longrightarrow> js_join sep stack \<noteq> []"
  by (induction sep stack rule: js_join.induct) auto

lemma last_join:
  "stack \<noteq> [] \<Longrightarrow> last stack \<noteq> [] \<Longrightarrow> last (js_join sep stack) = last (last stack)"
proof (induction sep stack rule: js_join.induct)
  case (3 sep x y ys)
  then show ?case using join_last_nonempty [of "y # ys" sep] by simp
qed simp_all

lemma normalizePath_canonical:
  assumes "normalizePath p \<noteq> []"
  shows "canonical (normalizePath p)"
proof -
  have c: "\<forall>seg \<in> set (stack_of p). clean_seg seg" by (rule stack_of_clean)
  have n: "normalizePath p = js_join (str ''/'') (stack_of p)"
    by (simp add: normalizePath_def stack_of_def)
  have ne: "stack_of p \<noteq> []" using assms n by auto
  then have h: "hd (stack_of p) \<in> set (stack_of p)" and l: "last (stack_of p) \<in> set (stack_of p)"
    by simp_all
  have s: "js_split SLASH (normalizePath p) = stack_of p"
    unfolding n using ne c by (intro split_join) (auto simp: clean_seg_def)
  have 1: "list_all (\<lambda>seg. seg \<noteq> [] \<and> seg \<noteq> str ''.'' \<and> seg \<noteq> str ''..'') (js_split SLASH (normalizePath p))"
    unfolding s using c by (auto simp: list_all_iff clean_seg_def)
  have hc: "clean_seg (hd (stack_of p))" and lc: "clean_seg (last (stack_of p))"
    using c h l by blast+
  have 2: "hd (normalizePath p) \<noteq> SLASH"
    unfolding n using hd_join [OF ne, of "(str ''/'')"] hc
    by (metis clean_seg_def hd_in_set)
  have 3: "last (normalizePath p) \<noteq> SLASH"
    unfolding n using last_join [OF ne, of "(str ''/'')"] lc
    by (metis clean_seg_def last_in_set)
  show ?thesis using 1 2 3 assms by (simp add: canonical_def)
qed

lemma split_normalizePath:
  "js_split SLASH (normalizePath p) = (if stack_of p = [] then [[]] else stack_of p)"
proof (cases "stack_of p = []")
  case True
  then show ?thesis by (simp add: normalizePath_def stack_of_def js_split_def)
next
  case False
  have "js_split SLASH (js_join (str ''/'') (stack_of p)) = stack_of p"
    using False stack_of_clean [of p] by (intro split_join) (auto simp: clean_seg_def)
  with False show ?thesis by (simp add: normalizePath_def stack_of_def)
qed

section \<open>The path normalizer cancels a segment against its parent reference\<close>

text \<open>
  Claim C8. For every base string, normalizing \<open>base + "a/b/../c"\<close> gives the same
  path as normalizing \<open>base + "a/c"\<close>. The normalizer is the composition the
  specification describes: split on \<open>/\<close>, one \<open>normalize_step\<close> per segment starting
  from the empty stack, join with \<open>/\<close>; a step leaves the stack alone on an empty
  or \<open>.\<close> segment, removes the last accumulated segment on \<open>..\<close> (which changes
  nothing when the stack is already empty, so surplus \<open>..\<close> segments are absorbed),
  and appends any other segment. Splitting the result at \<open>/\<close> gives back exactly
  the segments kept, which fixes the separator of the join; paths of several
  segments are evaluated.
\<close>

theorem normalize_parent_roundtrip:
  "normalizePath (base @ str ''a/b/../c'') = normalizePath (base @ str ''a/c'')
   \<and> normalizePath p = js_join (str ''/'') (foldl normalize_step [] (js_split SLASH p))
   \<and> js_split SLASH (normalizePath p) = (if stack_of p = [] then [[]] else stack_of p)
   \<and> normalize_step stack part =
         (if part = [] \<or> part = str ''.'' then stack
          else if part = str ''..'' then butlast stack
          else stack @ [part])
   \<and> normalize_step [] (str ''..'') = []
   \<and> js_split SLASH (str ''a//b/'') = [str ''a'', [], str ''b'', []]
   \<and> js_join (str ''/'') [x, y, z] = x @ str ''/'' @ y @ str ''/'' @ z
   \<and> normalizePath (str ''../../x'') = str ''x''
   \<and> normalizePath (str ''/x//y/./z/'') = str ''x/y/z''
   \<and> normalizePath (str ''OEBPS/text/../images/./cover.png'') = str ''OEBPS/images/cover.png''
   \<and> normalizePath (base @ str ''a/b/../c'') =
       js_join (str ''/'') (stack_of (base @ str ''a'')) @ str ''/c''"
proof -
  let ?ps = "split_acc SLASH [] base"
  let ?S = "foldl normalize_step [] (butlast ?ps)"
  have l: "foldl normalize_step [] (js_split SLASH (base @ str ''a/b/../c''))
           = ?S @ [last ?ps @ str ''a'', str ''c'']"
    unfolding js_split_def split_acc_append [of _ _ base] split_acc_tail_a_b_up_c
    by (simp add: ends_in_a_is_pushed) (simp add: normalize_step_def butlast_append str_def)
  have r: "foldl normalize_step [] (js_split SLASH (base @ str ''a/c''))
           = ?S @ [last ?ps @ str ''a'', str ''c'']"
    unfolding js_split_def split_acc_append [of _ _ base] split_acc_tail_a_c
    by (simp add: ends_in_a_is_pushed) (simp add: normalize_step_def str_def)
  have a: "stack_of (base @ str ''a'') = ?S @ [last ?ps @ str ''a'']"
  proof -
    have "split_acc SLASH cur (str ''a'') = [cur @ str ''a'']" for cur
      by (simp add: str_def)
    then show ?thesis
      unfolding stack_of_def js_split_def split_acc_append [of _ _ base]
      by (simp add: ends_in_a_is_pushed)
  qed
  have j: "js_join sep (xs @ [u, v]) = js_join sep (xs @ [u]) @ sep @ v" for sep xs u v
    by (induction sep xs rule: js_join.induct) simp_all
  have 1: "normalizePath (base @ str ''a/b/../c'') = normalizePath (base @ str ''a/c'')"
    unfolding normalizePath_def l r ..
  have 2: "normalizePath (str ''../../x'') = str ''x''"
       "normalizePath (str ''/x//y/./z/'') = str ''x/y/z''"
       "normalizePath (str ''OEBPS/text/../images/./cover.png'') = str ''OEBPS/images/cover.png''"
       "js_split SLASH (str ''a//b/'') = [str ''a'', [], str ''b'', []]"
    by (simp_all add: normalizePath_def js_split_def normalize_step_def str_def)
  have 3: "normalize_step stack part =
         (if part = [] \<or> part = str ''.'' then stack
          else if part = str ''..'' then butlast stack
          else stack @ [part])"
    by (cases stack) (simp_all add: normalize_step_def)
  have 4: "normalize_step [] (str ''..'') = []"
    by (simp add: normalize_step_def str_def)
  have 5: "normalizePath (base @ str ''a/b/../c'') =
       js_join (str ''/'') (stack_of (base @ str ''a'')) @ str ''/c''"
    unfolding normalizePath_def l a j by (simp add: str_def)
  have 6: "js_join (str ''/'') [x, y, z] = x @ str ''/'' @ y @ str ''/'' @ z"
    by simp
  have 7: "normalizePath p = js_join (str ''/'') (foldl normalize_step [] (js_split SLASH p))"
    by (simp add: normalizePath_def)
  show ?thesis
    using 1 2 3 4 5 6 7 split_normalizePath [of p] by blast
qed

section \<open>Facts about the chapter list\<close>

lemma openPackage_keeps_reader:
  "openPackage sc entries r0 = (Inr x, r) \<Longrightarrow> r = r0"
  by (auto simp: openPackage_def Let_def split: option.splits entry_data.splits)

lemma map_spine_strings: "map_spine toc (map Str ps) = Inr (map (chapter_of toc) ps)"
  by (induction ps) (simp_all add: spine_callback_def)

lemma map_spine_inherited: "Inherited n \<in> set vs \<Longrightarrow> map_spine toc vs = Inl TypeError"
proof (induction vs)
  case Nil
  then show ?case by simp
next
  case (Cons v vs)
  show ?case
  proof (cases v)
    case (Str p)
    with Cons show ?thesis by (simp add: spine_callback_def)
  next
    case (Inherited m)
    then show ?thesis by (simp add: spine_callback_def)
  qed
qed

lemma map_spine_Inr:
  "map_spine toc vs = Inr cs \<Longrightarrow> \<exists>ps. vs = map Str ps \<and> cs = map (chapter_of toc) ps"
proof (induction vs arbitrary: cs)
  case Nil
  then show ?case by simp
next
  case (Cons v vs)
  from Cons.prems obtain p cs' where v: "v = Str p" and r: "map_spine toc vs = Inr cs'"
    and cs: "cs = chapter_of toc p # cs'"
    by (cases v) (auto simp: spine_callback_def split: sum.splits)
  from Cons.IH [OF r] obtain ps where "vs = map Str ps" "cs' = map (chapter_of toc) ps"
    by blast
  with v cs have "v # vs = map Str (p # ps) \<and> cs = map (chapter_of toc) (p # ps)"
    by simp
  then show ?case by (rule exI [of _ "p # ps"])
qed

lemma getChapters_success:
  assumes "openPackage sc entries new_ZipReader = (Inr (opfDir, opfXml), r)"
      and "getTOCFromEntries sc entries opfXml opfDir = Inr toc"
      and "spine_of sc opfDir opfXml = map Str ps"
  shows "getChapters sc entries = (Inr (map (chapter_of toc) ps), close new_ZipReader)"
  using assms openPackage_keeps_reader [OF assms(1)]
  by (simp add: getChapters_def map_spine_strings)

lemma getChapters_type_error:
  assumes "openPackage sc entries new_ZipReader = (Inr (opfDir, opfXml), r)"
      and "getTOCFromEntries sc entries opfXml opfDir = Inr toc"
      and "Inherited n \<in> set (spine_of sc opfDir opfXml)"
  shows "getChapters sc entries = (Inl TypeError, new_ZipReader)"
  using assms openPackage_keeps_reader [OF assms(1)] map_spine_inherited [OF assms(3), of toc]
  by (simp add: getChapters_def)

lemma build_spine_acc:
  "build_spine m idrefs acc =
     acc @ concat (map (\<lambda>i. case get_property m i of
                               None \<Rightarrow> []
                             | Some v \<Rightarrow> if truthy (Some v) then [v] else []) idrefs)"
  by (induction idrefs arbitrary: acc) (auto simp: truthy_def split: option.splits)


lemma path_chapter_of: "path (chapter_of toc p) = p"
  by (simp add: chapter_of_def)


lemma build_manifest_values:
  "build_manifest sc opfDir items m k = Some v \<Longrightarrow>
   m k = Some v \<or> (\<exists>x. v = normalizePath x)"
proof (induction items arbitrary: m)
  case Nil
  then show ?case by simp
next
  case (Cons it items)
  from Cons.IH [OF Cons.prems [simplified build_manifest.simps Let_def]]
  show ?case by (auto simp: set_property_def split: if_splits)
qed

lemma spine_members:
  assumes "Str p \<in> set (spine_of sc opfDir opfXml)"
  shows "p \<noteq> [] \<and> (\<exists>x. p = normalizePath x)"
proof -
  from assms obtain i where "manifest_of sc opfDir opfXml i = Some p" "p \<noteq> []"
    by (auto simp: spine_of_def build_spine_acc get_property_def truthy_def
        split: option.splits if_splits)
  then show ?thesis
    using build_manifest_values [of sc opfDir "itemMatches sc opfXml" Map.empty i p]
    by (auto simp: manifest_of_def)
qed

lemma getChapters_Inr:
  assumes "fst (getChapters sc entries) = Inr chapters"
  shows "\<exists>opfDir opfXml toc ps. spine_of sc opfDir opfXml = map Str ps
           \<and> chapters = map (chapter_of toc) ps"
proof -
  from assms obtain opfDir opfXml toc where
    "map_spine toc (spine_of sc opfDir opfXml) = Inr chapters"
    by (auto simp: getChapters_def Let_def split: prod.splits sum.splits)
  from map_spine_Inr [OF this] show ?thesis by blast
qed

lemma last_split_name:
  "SLASH \<notin> set name \<Longrightarrow> last (js_split SLASH (dir @ SLASH # name)) = name"
  using split_acc_append [of "SLASH" "[]" dir "SLASH # name"]
        split_acc_absorb [of "SLASH" name "[]" "[]"]
  by (simp add: js_split_def)

lemma title_of_first_match:
  assumes "i < length toc" and "path (toc ! i) = p" and "\<forall>j<i. path (toc ! j) \<noteq> p"
  shows "title (chapter_of toc p) = title (toc ! i)"
proof -
  have "find (\<lambda>t. path t = p) toc = Some (toc ! i)"
    using assms by (auto simp: find_Some_iff)
  then show ?thesis by (simp add: chapter_of_def)
qed

lemma title_without_match:
  assumes "\<forall>t \<in> set toc. path t \<noteq> p"
  shows "title (chapter_of toc p) = last (js_split SLASH p)"
proof -
  have "find (\<lambda>t. path t = p) toc = None"
    using assms by (auto simp: find_None_iff)
  then show ?thesis by (simp add: chapter_of_def)
qed

lemma scenario_chapters:
  assumes "find (\<lambda>e. filename e = str ''META-INF/container.xml'') entries = Some containerEntry"
      and "data containerEntry = GetData (Some containerXml)"
      and "fullPathMatch sc containerXml = Some (str ''OEBPS/content.opf'')"
      and "find (\<lambda>e. filename e = str ''OEBPS/content.opf'') entries = Some opfEntry"
      and "data opfEntry = GetData (Some opfXml)"
      and "itemMatches sc opfXml = [itemMatch]"
      and "item_id itemMatch = str ''ch1''"
      and "item_href itemMatch = str ''text/ch01.html''"
      and "decodeURIComponent sc (str ''text/ch01.html'') = Some (str ''text/ch01.html'')"
      and "itemrefMatches sc opfXml = [str ''ch1'']"
      and "getTOCFromEntries sc entries opfXml (str ''OEBPS/'') = Inr []"
  shows "getChapters sc entries =
           (Inr [\<lparr>title = str ''ch01.html'', path = str ''OEBPS/text/ch01.html''\<rparr>],
            \<lparr>closes = 1\<rparr>)"
proof -
  have d: "dir_of (str ''OEBPS/content.opf'') = str ''OEBPS/''"
    by (simp add: dir_of_def lastIndexOf_def js_substring_def str_def)
  have p: "openPackage sc entries new_ZipReader = (Inr (str ''OEBPS/'', opfXml), new_ZipReader)"
    using assms(1-5) d by (simp add: openPackage_def)
  have s: "spine_of sc (str ''OEBPS/'') opfXml = map Str [str ''OEBPS/text/ch01.html'']"
    using assms(6-10)
    by (simp add: spine_of_def manifest_of_def set_property_def get_property_def truthy_def
         normalizePath_def js_split_def normalize_step_def str_def)
  show ?thesis
    using getChapters_success [OF p assms(11) s]
    by (simp add: chapter_of_def js_split_def close_def new_ZipReader_def str_def)
qed

section \<open>The sample archives, evaluated\<close>

lemmas sample_docs =
  sample_container_def scenario_opf_def book_opf_def book_ncx_def nav_opf_def book_nav_def
  empty_opf_def parent_opf_def constructor_opf_def str_def

lemmas sample_entries = container_entry_def file_entry_def

lemma sample_dir: "dir_of (str ''OEBPS/content.opf'') = str ''OEBPS/''"
  by (simp add: dir_of_def lastIndexOf_def js_substring_def str_def)

lemma sample_package:
  "openPackage sample_scanner book_archive new_ZipReader
     = (Inr (str ''OEBPS/'', book_opf), new_ZipReader)"
  by (simp add: openPackage_def book_archive_def sample_entries sample_scanner_def sample_dir)
     (simp add: str_def)

lemma book_legacy:
  "legacy_tier sample_scanner book_archive book_opf (str ''OEBPS/'')
     = Inr [\<lparr>title = str ''Chapter One'', path = str ''OEBPS/text/ch01.html''\<rparr>]"
  by (simp add: legacy_tier_def read_ncx_def or_else_def
       book_archive_def sample_entries sample_scanner_def toc_push_def strip_fragment_def
       normalizePath_def js_split_def normalize_step_def trim_def is_space_def sample_docs)

lemma sample_toc:
  "getTOCFromEntries sample_scanner book_archive book_opf (str ''OEBPS/'')
     = Inr [\<lparr>title = str ''Chapter One'', path = str ''OEBPS/text/ch01.html''\<rparr>]"
  by (simp add: getTOCFromEntries_def book_legacy)

lemma sample_manifest:
  "manifest_of sample_scanner (str ''OEBPS/'') book_opf =
     [str ''ncx'' \<mapsto> str ''OEBPS/toc.ncx'', str ''ch1'' \<mapsto> str ''OEBPS/text/ch01.html'',
      str ''ch2'' \<mapsto> str ''OEBPS/text/ch02.html'']"
  by (simp add: manifest_of_def sample_scanner_def item_id_def item_href_def set_property_def
       normalizePath_def js_split_def normalize_step_def sample_docs Let_def)

lemma sample_idrefs:
  "itemrefMatches sample_scanner book_opf = [str ''ch1'', str ''gone'', str ''ch2'', str ''ch1'']"
  by (simp add: sample_scanner_def sample_docs)

lemma sample_spine:
  "spine_of sample_scanner (str ''OEBPS/'') book_opf =
     map Str [str ''OEBPS/text/ch01.html'', str ''OEBPS/text/ch02.html'',
              str ''OEBPS/text/ch01.html'']"
  unfolding spine_of_def sample_manifest sample_idrefs
  by (simp add: get_property_def truthy_def object_prototype_names_def str_def)

lemma sample_chapters:
  "fst (getChapters sample_scanner book_archive)
     = Inr [\<lparr>title = str ''Chapter One'', path = str ''OEBPS/text/ch01.html''\<rparr>,
            \<lparr>title = str ''ch02.html'', path = str ''OEBPS/text/ch02.html''\<rparr>,
            \<lparr>title = str ''Chapter One'', path = str ''OEBPS/text/ch01.html''\<rparr>]"
  using getChapters_success [OF sample_package sample_toc sample_spine]
  by (simp add: chapter_of_def js_split_def str_def)

lemma scenario_package:
  "openPackage sample_scanner scenario_archive new_ZipReader
     = (Inr (str ''OEBPS/'', scenario_opf), new_ZipReader)"
  by (simp add: openPackage_def scenario_archive_def sample_entries sample_scanner_def sample_dir)
     (simp add: str_def)

lemma scenario_toc:
  "getTOCFromEntries sample_scanner scenario_archive scenario_opf (str ''OEBPS/'') = Inr []"
  by (simp add: getTOCFromEntries_def legacy_tier_def modern_tier_def or_else_def
       sample_scanner_def sample_docs)






lemma constructor_package:
  "openPackage sample_scanner constructor_archive new_ZipReader
     = (Inr (str ''OEBPS/'', constructor_opf), new_ZipReader)"
  by (simp add: openPackage_def constructor_archive_def sample_entries sample_scanner_def
       sample_dir) (simp add: str_def)

lemma constructor_toc:
  "getTOCFromEntries sample_scanner constructor_archive constructor_opf (str ''OEBPS/'') = Inr []"
  by (simp add: getTOCFromEntries_def legacy_tier_def modern_tier_def or_else_def
       sample_scanner_def sample_docs)

lemma constructor_spine:
  "spine_of sample_scanner (str ''OEBPS/'') constructor_opf = [Inherited (str ''constructor'')]"
  by (simp add: spine_of_def manifest_of_def sample_scanner_def get_property_def truthy_def
       object_prototype_names_def sample_docs)

section \<open>Chapters follow the spine\<close>




text \<open>
  A reference that the manifest does not know but that names an inherited property
  is not dropped: its value is pushed on the spine and building its chapter throws,
  with the reader left open.
\<close>

lemma inherited_reference_throws:
  "getChapters sample_scanner constructor_archive = (Inl TypeError, \<lparr>closes = 0\<rparr>)"
  using getChapters_type_error [OF constructor_package constructor_toc, of "str ''constructor''"]
  by (simp add: constructor_spine new_ZipReader_def)

section \<open>Chapter titles\<close>

text \<open>
  Claim C3. The chapter built for a spine path takes the title of the first entry
  of the table of contents whose path is equal to it, and the last \<open>/\<close>-separated
  segment of the path when no entry has that path. The list is built this way
  when every value pushed to the spine is a path string stored in the manifest; a
  spine value inherited from the object prototype has no \<open>split\<close> method and the
  call ends with a TypeError instead. For an archive whose container
  names \<open>OEBPS/content.opf\<close>, whose manifest maps \<open>ch1\<close> to \<open>text/ch01.html\<close>,
  whose spine references \<open>ch1\<close> and which has no table of contents, the chapter
  list is the single chapter titled \<open>ch01.html\<close> at \<open>OEBPS/text/ch01.html\<close>.
\<close>

theorem chapter_titles:
  "(openPackage sc entries new_ZipReader = (Inr (opfDir, opfXml), r)
      \<and> getTOCFromEntries sc entries opfXml opfDir = Inr toc
      \<and> spine_of sc opfDir opfXml = map Str paths
    \<longrightarrow> fst (getChapters sc entries) = Inr (map (chapter_of toc) paths))
   \<and> (openPackage sc entries new_ZipReader = (Inr (opfDir, opfXml), r)
      \<and> getTOCFromEntries sc entries opfXml opfDir = Inr toc
      \<and> Inherited n \<in> set (spine_of sc opfDir opfXml)
    \<longrightarrow> fst (getChapters sc entries) = Inl TypeError)
   \<and> (i < length toc \<and> path (toc ! i) = p \<and> (\<forall>j<i. path (toc ! j) \<noteq> p)
    \<longrightarrow> title (chapter_of toc p) = title (toc ! i) \<and> path (chapter_of toc p) = p)
   \<and> ((\<forall>t \<in> set toc. path t \<noteq> q)
    \<longrightarrow> title (chapter_of toc q) = last (js_split SLASH q) \<and> path (chapter_of toc q) = q)
   \<and> (SLASH \<notin> set name \<longrightarrow> last (js_split SLASH (dir @ SLASH # name)) = name)
   \<and> (find (\<lambda>e. filename e = str ''META-INF/container.xml'') entries = Some containerEntry
      \<and> data containerEntry = GetData (Some containerXml)
      \<and> fullPathMatch sc containerXml = Some (str ''OEBPS/content.opf'')
      \<and> find (\<lambda>e. filename e = str ''OEBPS/content.opf'') entries = Some opfEntry
      \<and> data opfEntry = GetData (Some packageXml)
      \<and> itemMatches sc packageXml = [itemMatch]
      \<and> item_id itemMatch = str ''ch1''
      \<and> item_href itemMatch = str ''text/ch01.html''
      \<and> decodeURIComponent sc (str ''text/ch01.html'') = Some (str ''text/ch01.html'')
      \<and> itemrefMatches sc packageXml = [str ''ch1'']
      \<and> getTOCFromEntries sc entries packageXml (str ''OEBPS/'') = Inr []
    \<longrightarrow> getChapters sc entries =
          (Inr [\<lparr>title = str ''ch01.html'', path = str ''OEBPS/text/ch01.html''\<rparr>], \<lparr>closes = 1\<rparr>))"
proof -
  have 1: "openPackage sc entries new_ZipReader = (Inr (opfDir, opfXml), r)
      \<and> getTOCFromEntries sc entries opfXml opfDir = Inr toc
      \<and> spine_of sc opfDir opfXml = map Str paths
    \<longrightarrow> fst (getChapters sc entries) = Inr (map (chapter_of toc) paths)"
    using getChapters_success [of sc entries opfDir opfXml r toc paths] by simp
  have 0: "openPackage sc entries new_ZipReader = (Inr (opfDir, opfXml), r)
      \<and> getTOCFromEntries sc entries opfXml opfDir = Inr toc
      \<and> Inherited n \<in> set (spine_of sc opfDir opfXml)
    \<longrightarrow> fst (getChapters sc entries) = Inl TypeError"
    using getChapters_type_error [of sc entries opfDir opfXml r toc n] by simp
  have 2: "i < length toc \<and> path (toc ! i) = p \<and> (\<forall>j<i. path (toc ! j) \<noteq> p)
    \<longrightarrow> title (chapter_of toc p) = title (toc ! i) \<and> path (chapter_of toc p) = p"
    using title_of_first_match [of i toc p] path_chapter_of [of toc p] by blast
  have 3: "(\<forall>t \<in> set toc. path t \<noteq> q)
    \<longrightarrow> title (chapter_of toc q) = last (js_split SLASH q) \<and> path (chapter_of toc q) = q"
    using title_without_match [of toc q] path_chapter_of [of toc q] by blast
  have 4: "SLASH \<notin> set name \<longrightarrow> last (js_split SLASH (dir @ SLASH # name)) = name"
    using last_split_name [of name dir] by blast
  show ?thesis
    using 0 1 2 3 4
      scenario_chapters [of entries containerEntry containerXml sc opfEntry packageXml itemMatch]
    by blast
qed

theorem chapter_titles_witness:
  "openPackage sample_scanner scenario_archive new_ZipReader
     = (Inr (str ''OEBPS/'', scenario_opf), new_ZipReader)
   \<and> getTOCFromEntries sample_scanner scenario_archive scenario_opf (str ''OEBPS/'') = Inr []
   \<and> spine_of sample_scanner (str ''OEBPS/'') scenario_opf
       = map Str [str ''OEBPS/text/ch01.html'']
   \<and> title (chapter_of [\<lparr>title = str ''Chapter One'', path = str ''OEBPS/text/ch01.html''\<rparr>]
              (str ''OEBPS/text/ch01.html'')) = str ''Chapter One''
   \<and> title (chapter_of [\<lparr>title = str ''Chapter One'', path = str ''OEBPS/text/ch01.html''\<rparr>]
              (str ''OEBPS/text/ch02.html'')) = str ''ch02.html''
   \<and> find (\<lambda>e. filename e = str ''META-INF/container.xml'') scenario_archive
       = Some container_entry
   \<and> data container_entry = GetData (Some sample_container)
   \<and> fullPathMatch sample_scanner sample_container = Some (str ''OEBPS/content.opf'')
   \<and> find (\<lambda>e. filename e = str ''OEBPS/content.opf'') scenario_archive
       = Some (file_entry (str ''OEBPS/content.opf'') scenario_opf)
   \<and> itemMatches sample_scanner scenario_opf = [IdFirst (str ''ch1'') (str ''text/ch01.html'')]
   \<and> itemrefMatches sample_scanner scenario_opf = [str ''ch1'']
   \<and> getChapters sample_scanner scenario_archive =
        (Inr [\<lparr>title = str ''ch01.html'', path = str ''OEBPS/text/ch01.html''\<rparr>],
         \<lparr>closes = 1\<rparr>)
   \<and> Inherited (str ''constructor'')
        \<in> set (spine_of sample_scanner (str ''OEBPS/'') constructor_opf)
   \<and> fst (getChapters sample_scanner constructor_archive) = Inl TypeError"
proof -
  let ?toc = "[\<lparr>title = str ''Chapter One'', path = str ''OEBPS/text/ch01.html''\<rparr>]"
  let ?oe = "file_entry (str ''OEBPS/content.opf'') scenario_opf"
  let ?it = "IdFirst (str ''ch1'') (str ''text/ch01.html'')"
  have a: "find (\<lambda>e. filename e = str ''META-INF/container.xml'') scenario_archive
       = Some container_entry"
    by (simp add: scenario_archive_def sample_entries)
  have b: "data container_entry = GetData (Some sample_container)"
    by (simp add: sample_entries)
  have c: "fullPathMatch sample_scanner sample_container = Some (str ''OEBPS/content.opf'')"
    by (simp add: sample_scanner_def)
  have d: "find (\<lambda>e. filename e = str ''OEBPS/content.opf'') scenario_archive = Some ?oe"
    by (simp add: scenario_archive_def sample_entries str_def)
  have e: "data ?oe = GetData (Some scenario_opf)"
    by (simp add: file_entry_def)
  have f: "itemMatches sample_scanner scenario_opf = [?it]"
    by (simp add: sample_scanner_def)
  have g: "item_id ?it = str ''ch1''" "item_href ?it = str ''text/ch01.html''"
    by (simp_all add: item_id_def item_href_def)
  have h: "decodeURIComponent sample_scanner (str ''text/ch01.html'')
             = Some (str ''text/ch01.html'')"
    by (simp add: sample_scanner_def)
  have k: "itemrefMatches sample_scanner scenario_opf = [str ''ch1'']"
    by (simp add: sample_scanner_def)
  have s: "spine_of sample_scanner (str ''OEBPS/'') scenario_opf
       = map Str [str ''OEBPS/text/ch01.html'']"
  proof -
    have "manifest_of sample_scanner (str ''OEBPS/'') scenario_opf
            = [str ''ch1'' \<mapsto> str ''OEBPS/text/ch01.html'']"
      by (simp add: manifest_of_def sample_scanner_def item_id_def item_href_def
           set_property_def normalizePath_def js_split_def normalize_step_def sample_docs
           Let_def)
    then show ?thesis
      unfolding spine_of_def k by (simp add: get_property_def truthy_def str_def)
  qed
  have m: "0 < length ?toc \<and> path (?toc ! 0) = str ''OEBPS/text/ch01.html''
           \<and> (\<forall>j<0. path (?toc ! j) \<noteq> str ''OEBPS/text/ch01.html'')"
    by simp
  have n: "\<forall>t \<in> set ?toc. path t \<noteq> str ''OEBPS/text/ch02.html''"
    by (simp add: str_def)
  have o: "SLASH \<notin> set (str ''ch02.html'')"
    by (simp add: str_def)
  have q: "str ''OEBPS/text'' @ SLASH # str ''ch02.html'' = str ''OEBPS/text/ch02.html''"
    by (simp add: str_def)
  note T = chapter_titles [where sc = sample_scanner and entries = scenario_archive
      and opfDir = "str ''OEBPS/''" and opfXml = scenario_opf and r = new_ZipReader
      and toc = ?toc and i = 0 and p = "str ''OEBPS/text/ch01.html''"
      and q = "str ''OEBPS/text/ch02.html''" and name = "str ''ch02.html''"
      and dir = "str ''OEBPS/text''" and containerEntry = container_entry
      and containerXml = sample_container and opfEntry = ?oe and packageXml = scenario_opf
      and itemMatch = ?it]
  have t1: "title (chapter_of ?toc (str ''OEBPS/text/ch01.html'')) = str ''Chapter One''"
    using T m by simp
  have t2: "title (chapter_of ?toc (str ''OEBPS/text/ch02.html'')) = str ''ch02.html''"
    using T n o q by simp
  have t3: "getChapters sample_scanner scenario_archive =
        (Inr [\<lparr>title = str ''ch01.html'', path = str ''OEBPS/text/ch01.html''\<rparr>],
         \<lparr>closes = 1\<rparr>)"
    using T a b c d e f g h k scenario_toc by blast
  have i: "Inherited (str ''constructor'')
        \<in> set (spine_of sample_scanner (str ''OEBPS/'') constructor_opf)"
    by (simp add: constructor_spine)
  have t4: "fst (getChapters sample_scanner constructor_archive) = Inl TypeError"
    using chapter_titles [where sc = sample_scanner and entries = constructor_archive
      and opfDir = "str ''OEBPS/''" and opfXml = constructor_opf and r = new_ZipReader
      and toc = "[]" and n = "str ''constructor''"]
      constructor_package constructor_toc i by blast
  show ?thesis
    using scenario_package scenario_toc s t1 t2 t3 t4 a b c d f k i by blast
qed

section \<open>Chapter paths are canonical\<close>

text \<open>
  Claim C9. Every path in the list \<open>getChapters\<close> returns is canonical: split at
  \<open>/\<close> it has no empty segment, no \<open>.\<close> and no \<open>..\<close> segment, it does not start or
  end with \<open>/\<close>, and normalizing it again leaves it unchanged.
\<close>

theorem chapter_paths_canonical:
  assumes "fst (getChapters sc entries) = Inr chapters" and "c \<in> set chapters"
  shows "canonical (path c) \<and> normalizePath (path c) = path c"
proof -
  from getChapters_Inr [OF assms(1)] obtain opfDir opfXml toc ps
    where "spine_of sc opfDir opfXml = map Str ps" "chapters = map (chapter_of toc) ps"
    by blast
  with assms(2) have "Str (path c) \<in> set (spine_of sc opfDir opfXml)"
    by (auto simp: path_chapter_of)
  from spine_members [OF this] obtain x where x: "path c = normalizePath x" "path c \<noteq> []"
    by blast
  then show ?thesis
    using normalizePath_canonical [of x] normalizePath_idem [of x] by simp
qed

theorem chapter_paths_canonical_witness:
  "fst (getChapters sample_scanner book_archive)
     = Inr [\<lparr>title = str ''Chapter One'', path = str ''OEBPS/text/ch01.html''\<rparr>,
            \<lparr>title = str ''ch02.html'', path = str ''OEBPS/text/ch02.html''\<rparr>,
            \<lparr>title = str ''Chapter One'', path = str ''OEBPS/text/ch01.html''\<rparr>]
   \<and> canonical (str ''OEBPS/text/ch02.html'')
   \<and> normalizePath (str ''OEBPS/text/ch02.html'') = str ''OEBPS/text/ch02.html''"
  using sample_chapters
    chapter_paths_canonical [OF sample_chapters,
      of "\<lparr>title = str ''ch02.html'', path = str ''OEBPS/text/ch02.html''\<rparr>"]
  by simp

section \<open>Facts about the table of contents\<close>

lemma hd_split_acc:
  "hd (split_acc sep cur s) = cur @ takeWhile (\<lambda>c. c \<noteq> sep) s"
  by (induction s arbitrary: cur) auto

lemma strip_fragment_takeWhile:
  "strip_fragment href = takeWhile (\<lambda>c. c \<noteq> HASH) href"
proof (cases "HASH \<in> set href")
  case True
  then show ?thesis by (simp add: strip_fragment_def js_split_def hd_split_acc)
next
  case False
  then have "takeWhile (\<lambda>c. c \<noteq> HASH) href = href"
    by (auto simp: takeWhile_eq_all_conv)
  moreover have "strip_fragment href = href"
    using False by (simp add: strip_fragment_def)
  ultimately show ?thesis by (simp only:)
qed

lemma toc_push_cases:
  "toc_push toc label fullPath =
     (if fullPath \<in> path ` set toc then toc else toc @ [\<lparr>title = label, path = fullPath\<rparr>])"
proof (cases "find (\<lambda>t. path t = fullPath) toc")
  case None
  then have "fullPath \<notin> path ` set toc" by (auto simp: find_None_iff)
  with None show ?thesis by (simp add: toc_push_def)
next
  case (Some t)
  then have "fullPath \<in> path ` set toc" by (auto simp: find_Some_iff)
  with Some show ?thesis by (simp add: toc_push_def)
qed

lemma navPoint_loop_acc:
  "navPoint_loop opfDir ms toc =
     toc @ first_per_path (filter (\<lambda>t. path t \<notin> path ` set toc) (map (legacy_entry opfDir) ms))"
proof (induction ms arbitrary: toc)
  case Nil
  then show ?case by simp
next
  case (Cons m ms)
  obtain m1 m2 where m: "m = (m1, m2)" by (cases m)
  let ?t = "legacy_entry opfDir m"
  have t: "?t = \<lparr>title = trim m1, path = normalizePath (opfDir @ strip_fragment m2)\<rparr>"
    by (simp add: legacy_entry_def m strip_fragment_takeWhile)
  show ?case
  proof (cases "path ?t \<in> path ` set toc")
    case True
    then show ?thesis
      using Cons.IH [of toc] t by (simp add: m toc_push_cases Let_def)
  next
    case False
    have "filter (\<lambda>u. path u \<noteq> path ?t)
            (filter (\<lambda>u. path u \<notin> path ` set toc) (map (legacy_entry opfDir) ms))
        = filter (\<lambda>u. path u \<notin> path ` set (toc @ [?t])) (map (legacy_entry opfDir) ms)"
      by (auto intro: filter_cong)
    then show ?thesis
      using False Cons.IH [of "toc @ [?t]"] t by (simp add: m toc_push_cases Let_def)
  qed
qed

lemma link_loop_acc:
  "link_loop sc opfDir ms toc =
     toc @ first_per_path (filter (\<lambda>t. path t \<notin> path ` set toc) (map (modern_entry sc opfDir) ms))"
proof (induction ms arbitrary: toc)
  case Nil
  then show ?case by simp
next
  case (Cons m ms)
  obtain m1 m2 where m: "m = (m1, m2)" by (cases m)
  let ?t = "modern_entry sc opfDir m"
  have t: "?t = \<lparr>title = trim (stripTags sc m2), path = normalizePath (opfDir @ strip_fragment m1)\<rparr>"
    by (simp add: modern_entry_def m strip_fragment_takeWhile)
  show ?case
  proof (cases "path ?t \<in> path ` set toc")
    case True
    then show ?thesis
      using Cons.IH [of toc] t by (simp add: m toc_push_cases Let_def)
  next
    case False
    have "filter (\<lambda>u. path u \<noteq> path ?t)
            (filter (\<lambda>u. path u \<notin> path ` set toc) (map (modern_entry sc opfDir) ms))
        = filter (\<lambda>u. path u \<notin> path ` set (toc @ [?t])) (map (modern_entry sc opfDir) ms)"
      by (auto intro: filter_cong)
    then show ?thesis
      using False Cons.IH [of "toc @ [?t]"] t by (simp add: m toc_push_cases Let_def)
  qed
qed



lemma read_ncx_cases:
  "read_ncx sc entries opfDir ncxHref =
     (case find (\<lambda>e. filename e = opfDir @ ncxHref) entries of
        None \<Rightarrow> Inr []
      | Some d \<Rightarrow>
          (case data d of
             Directory \<Rightarrow> Inr []
           | GetData None \<Rightarrow> Inl ReadFailure
           | GetData (Some ncxXml) \<Rightarrow>
               Inr (first_per_path (map (legacy_entry opfDir) (navPointMatches sc ncxXml)))))"
  by (simp add: read_ncx_def navPoint_loop_acc split: option.splits entry_data.splits)

lemma read_nav_cases:
  "read_nav sc entries opfDir navHref [] =
     (case find (\<lambda>e. filename e = normalizePath (opfDir @ navHref)) entries of
        None \<Rightarrow> Inr []
      | Some d \<Rightarrow>
          (case data d of
             Directory \<Rightarrow> Inr []
           | GetData None \<Rightarrow> Inl ReadFailure
           | GetData (Some navXml) \<Rightarrow>
               Inr (first_per_path (map (modern_entry sc opfDir) (linkMatches sc navXml)))))"
  by (simp add: read_nav_def link_loop_acc split: option.splits entry_data.splits)





lemma read_ncx_error: "read_ncx sc entries opfDir ncxHref = Inl e \<Longrightarrow> e = ReadFailure"
  by (auto simp: read_ncx_cases split: option.splits entry_data.splits)

lemma read_nav_error: "read_nav sc entries opfDir navHref [] = Inl e \<Longrightarrow> e = ReadFailure"
  by (auto simp: read_nav_cases split: option.splits entry_data.splits)






lemma getTOC_error:
  assumes "getTOCFromEntries sc entries opfXml opfDir = Inl e"
  shows "e = ReadFailure \<or> e = RegExpSyntaxError"
proof (cases "legacy_tier sc entries opfXml opfDir")
  case (Inl e0)
  with assms have "e0 = e" by (simp add: getTOCFromEntries_def)
  with Inl show ?thesis
    by (auto simp: legacy_tier_def dest: read_ncx_error
        split: option.splits regexp_result.splits)
next
  case (Inr l)
  with assms have "modern_tier sc entries opfXml opfDir [] = Inl e"
    by (cases "l = []") (simp_all add: getTOCFromEntries_def)
  then show ?thesis
    by (auto simp: modern_tier_def dest: read_nav_error split: option.splits)
qed



lemma nav_legacy:
  "legacy_tier sample_scanner nav_archive nav_opf (str ''OEBPS/'') = Inr []"
  by (simp add: legacy_tier_def or_else_def sample_scanner_def sample_docs)

lemma nav_modern:
  "modern_tier sample_scanner nav_archive nav_opf (str ''OEBPS/'') []
     = Inr [\<lparr>title = str ''One'', path = str ''OEBPS/text/ch01.html''\<rparr>]"
  by (simp add: modern_tier_def or_else_def
       read_nav_def nav_archive_def sample_entries sample_scanner_def toc_push_def
       strip_fragment_def normalizePath_def js_split_def normalize_step_def trim_def
       is_space_def sample_docs)




lemma missing_ncx_legacy:
  "legacy_tier sample_scanner first_chapter_missing_archive book_opf (str ''OEBPS/'') = Inr []"
  by (simp add: legacy_tier_def read_ncx_def or_else_def first_chapter_missing_archive_def
       sample_entries sample_scanner_def sample_docs)




lemma missing_ncx_modern:
  "or_else (navMatch1 sample_scanner book_opf) (navMatch2 sample_scanner book_opf) = None"
  by (simp add: or_else_def sample_scanner_def sample_docs)

section \<open>The table of contents falls back from the legacy to the modern document\<close>




section \<open>Facts about substring\<close>

lemma js_substring_window:
  assumes "0 \<le> a" and "a \<le> b"
  shows "js_substring s a b = take (nat (b - a)) (drop (nat a) s)"
proof (cases "a \<le> int (length s)")
  case True
  show ?thesis
  proof (cases "b \<le> int (length s)")
    case True
    with assms \<open>a \<le> int (length s)\<close> show ?thesis
      by (simp add: js_substring_def Let_def min_def max_def)
  next
    case False
    with assms True have "js_substring s a b = take (nat (int (length s) - a)) (drop (nat a) s)"
      by (simp add: js_substring_def Let_def min_def max_def)
    also have "\<dots> = drop (nat a) s" using True assms by simp
    also have "\<dots> = take (nat (b - a)) (drop (nat a) s)" using False assms by simp
    finally show ?thesis .
  qed
next
  case False
  with assms show ?thesis
    by (simp add: js_substring_def Let_def min_def max_def)
qed

lemma js_substring_clamps:
  "js_substring s a b =
     js_substring s (min (max a 0) (int (length s))) (min (max b 0) (int (length s)))"
  by (simp add: js_substring_def Let_def min_def max_def)

lemma js_substring_swaps: "js_substring s a b = js_substring s b a"
  by (simp add: js_substring_def Let_def min.commute max.commute)

section \<open>Chunked reading\<close>

text \<open>
  Claim C5, as amended. The chunk returned for \<open>offset\<close> and \<open>length\<close> is
  \<open>text.substring(offset, offset + length)\<close>, followed by the continuation marker
  naming \<open>offset + length\<close> exactly when \<open>offset + length < text.length\<close>; absent
  arguments are \<open>0\<close> and \<open>30000\<close>. Substring clamps both bounds into the text and
  swaps them when they are out of order, so no bound is an error; for bounds that
  are not negative it is the window of \<open>length\<close> characters from \<open>offset\<close>. Reading
  from \<open>0\<close> with a length of at least the text length returns the whole text
  without a marker. Reading from an offset at or beyond the end returns the empty
  string when the length is not negative.
\<close>

theorem chunk_window:
  "chunk text (Some offset) (Some len) =
     js_substring text offset (offset + len)
       @ (if offset + len < int (length text) then continuation_marker (offset + len) else [])
   \<and> chunk text None None = chunk text (Some 0) (Some 30000)
   \<and> js_substring text a b =
       js_substring text (min (max a 0) (int (length text))) (min (max b 0) (int (length text)))
   \<and> js_substring text a b = js_substring text b a
   \<and> (0 \<le> offset \<and> 0 \<le> len
       \<longrightarrow> js_substring text offset (offset + len) = take (nat len) (drop (nat offset) text))
   \<and> (int (length text) \<le> len \<longrightarrow> chunk text (Some 0) (Some len) = text)
   \<and> (int (length text) \<le> offset \<and> 0 \<le> len \<longrightarrow> chunk text (Some offset) (Some len) = [])"
proof -
  have 1: "chunk text (Some offset) (Some len) =
     js_substring text offset (offset + len)
       @ (if offset + len < int (length text) then continuation_marker (offset + len) else [])"
    by (simp add: chunk_def Let_def)
  have 2: "chunk text None None = chunk text (Some 0) (Some 30000)"
    by (simp add: chunk_def)
  have 5: "0 \<le> offset \<and> 0 \<le> len
       \<longrightarrow> js_substring text offset (offset + len) = take (nat len) (drop (nat offset) text)"
    using js_substring_window [of offset "offset + len" "text"] by simp
  have 6: "int (length text) \<le> len \<longrightarrow> chunk text (Some 0) (Some len) = text"
    using js_substring_window [of 0 len "text"] by (simp add: chunk_def Let_def)
  have 7: "int (length text) \<le> offset \<and> 0 \<le> len \<longrightarrow> chunk text (Some offset) (Some len) = []"
  proof (intro impI, elim conjE)
    assume a: "int (length text) \<le> offset" "0 \<le> len"
    then have o: "0 \<le> offset" by linarith
    have "js_substring text offset (offset + len) = take (nat len) (drop (nat offset) text)"
      using js_substring_window [of offset "offset + len" "text"] o a by simp
    moreover have "length text \<le> nat offset" using a by linarith
    ultimately show "chunk text (Some offset) (Some len) = []"
      using a by (simp add: chunk_def Let_def)
  qed
  show ?thesis
    using 1 2 5 6 7 js_substring_clamps [of "text" a b] js_substring_swaps [of "text" a b]
    by blast
qed

theorem chunk_window_witness:
  "chunk (str ''abcdef'') (Some 2) (Some 2) = str ''cd'' @ continuation_marker 4
   \<and> js_substring (str ''abcdef'') 2 4 = str ''cd''
   \<and> int (length (str ''abcdef'')) \<le> 9
   \<and> chunk (str ''abcdef'') (Some 0) (Some 9) = str ''abcdef''
   \<and> chunk (str ''abcdef'') (Some 7) (Some 2) = []"
proof -
  note T = chunk_window [of "(str ''abcdef'')" 2 2 0 0]
  have a: "js_substring (str ''abcdef'') 2 4 = str ''cd''"
    using T by (simp add: str_def)
  have b: "chunk (str ''abcdef'') (Some 2) (Some 2) = str ''cd'' @ continuation_marker 4"
    using T a by (simp add: str_def)
  have c: "chunk (str ''abcdef'') (Some 0) (Some 9) = str ''abcdef''"
    using chunk_window [of "(str ''abcdef'')" 0 9 0 0] by (simp add: str_def)
  have d: "chunk (str ''abcdef'') (Some 7) (Some 2) = []"
    using chunk_window [of "(str ''abcdef'')" 7 2 0 0] by (simp add: str_def)
  show ?thesis using a b c d by (simp add: str_def)
qed

text \<open>
  With a negative length the bounds are swapped: reading six characters of text from
  offset 6 with length \<open>-3\<close> returns the last three characters and a marker.
\<close>

theorem chunk_past_end_counterexample:
  "int (length (str ''abcdef'')) \<le> 6
   \<and> chunk (str ''abcdef'') (Some 6) (Some (- 3))
       = str ''def\<newline>\<newline>... (truncated, use offset 3 to read more)''
   \<and> chunk (str ''abcdef'') (Some 6) (Some (- 3)) \<noteq> []"
  by code_simp

section \<open>Closing the reader\<close>

text \<open>
  The reader is closed once on the normal path and on each error the code raises
  itself; it is left open when reading an entry fails, when building an expression
  throws and when a spine value has no \<open>split\<close> method.
\<close>

lemma openPackage_closes:
  "openPackage sc entries r0 = (res, r) \<Longrightarrow>
   res \<noteq> Inl RegExpSyntaxError \<and> res \<noteq> Inl TypeError \<and>
   r = (case res of Inl ReadFailure \<Rightarrow> r0 | Inl e \<Rightarrow> close r0 | Inr x \<Rightarrow> r0)"
  by (auto simp: openPackage_def Let_def split: option.splits entry_data.splits)

lemma map_spine_Inl: "map_spine toc vs = Inl e \<Longrightarrow> e = TypeError"
proof (induction vs arbitrary: e)
  case Nil
  then show ?case by simp
next
  case (Cons v vs)
  then show ?case
    by (cases v) (auto simp: spine_callback_def split: sum.splits)
qed

lemma getChapters_closes:
  "closes (snd (getChapters sc entries)) =
     (if fst (getChapters sc entries) = Inl ReadFailure
         \<or> fst (getChapters sc entries) = Inl RegExpSyntaxError
         \<or> fst (getChapters sc entries) = Inl TypeError then 0 else 1)"
proof (cases "openPackage sc entries new_ZipReader")
  case (Pair res r)
  note c = openPackage_closes [OF Pair]
  show ?thesis
  proof (cases res)
    case (Inl e)
    with Pair c show ?thesis
      by (cases e) (simp_all add: getChapters_def close_def new_ZipReader_def)
  next
    case (Inr x)
    obtain opfDir opfXml where x: "x = (opfDir, opfXml)" by (cases x)
    show ?thesis
    proof (cases "getTOCFromEntries sc entries opfXml opfDir")
      case (Inl e)
      with getTOC_error [OF Inl] Pair Inr x c show ?thesis
        by (auto simp: getChapters_def close_def new_ZipReader_def)
    next
      case (Inr toc)
      show ?thesis
      proof (cases "map_spine toc (spine_of sc opfDir opfXml)")
        case (Inl e)
        then have "e = TypeError" by (rule map_spine_Inl)
        with Inl Inr Pair \<open>res = Inr x\<close> x c show ?thesis
          by (simp add: getChapters_def close_def new_ZipReader_def)
      next
        case (Inr chapters)
        with \<open>getTOCFromEntries sc entries opfXml opfDir = Inr toc\<close> Pair \<open>res = Inr x\<close> x c
        show ?thesis
          by (simp add: getChapters_def close_def new_ZipReader_def)
      qed
    qed
  qed
qed

lemma getEpubFile_closes:
  "closes (snd (getEpubFile entries filePath responseType)) =
     (if fst (getEpubFile entries filePath responseType) = Inl ReadFailure then 0 else 1)"
  by (auto simp: getEpubFile_def Let_def close_def new_ZipReader_def
      split: option.splits entry_data.splits response_type.splits)

text \<open>
  Claim C2 asks for the reader to be closed exactly once on every exit path. At an
  archive whose container entry cannot be read, \<open>getChapters\<close> fails without having
  closed the reader, and so does \<open>getEpubFile\<close> on that entry.
\<close>

theorem reader_left_open_on_read_failure:
  "getChapters sc unreadable_container_archive = (Inl ReadFailure, \<lparr>closes = 0\<rparr>)
   \<and> getEpubFile unreadable_container_archive (str ''META-INF/container.xml'') Text
       = (Inl ReadFailure, \<lparr>closes = 0\<rparr>)"
  by (simp add: getChapters_def openPackage_def getEpubFile_def unreadable_container_archive_def
       new_ZipReader_def)

section \<open>Facts about indexOf and the scan loop\<close>

lemma occurs_at_iff: "k \<le> length s \<Longrightarrow> occurs_at s q k = (take (length q) (drop k s) = q)"
proof
  assume k: "k \<le> length s" and a: "take (length q) (drop k s) = q"
  from arg_cong [OF a, of length] have "min (length q) (length s - k) = length q"
    by simp
  with k a show "occurs_at s q k"
    by (simp add: occurs_at_def)
qed (simp add: occurs_at_def)

lemma find_from_first:
  "k \<le> length s \<Longrightarrow>
   find_from q (drop k s) k =
     (case filter (occurs_at s q) [k..<Suc (length s)] of [] \<Rightarrow> None | j # js \<Rightarrow> Some j)"
proof (induction "length s - k" arbitrary: k)
  case 0
  then have k: "k = length s" by simp
  have "occurs_at s q (length s) = (q = [])"
    by (auto simp: occurs_at_def)
  then show ?case by (simp add: k)
next
  case (Suc n)
  then have lt: "k < length s" by simp
  then have d: "drop k s = s ! k # drop (Suc k) s"
    by (simp add: Cons_nth_drop_Suc)
  have u: "[k..<Suc (length s)] = k # [Suc k..<Suc (length s)]"
    using lt by (simp add: upt_conv_Cons)
  have o: "occurs_at s q k = (take (length q) (drop k s) = q)"
    using lt by (simp add: occurs_at_iff)
  have ih: "find_from q (drop (Suc k) s) (Suc k) =
     (case filter (occurs_at s q) [Suc k..<Suc (length s)] of [] \<Rightarrow> None | j # js \<Rightarrow> Some j)"
    using Suc.hyps(1) [of "Suc k"] Suc.hyps(2) lt by simp
  show ?case
    unfolding u using o ih d by (simp del: upt_Suc)
qed

lemma indexOf_first:
  assumes "0 \<le> pos" and "q \<noteq> []"
  shows "indexOf s q pos =
     (case filter (occurs_at s q) [nat pos..<Suc (length s)] of [] \<Rightarrow> - 1 | j # js \<Rightarrow> int j)"
proof (cases "pos \<le> int (length s)")
  case True
  then have le: "nat pos \<le> length s" using assms by simp
  have eq: "nat (min (max pos 0) (int (length s))) = nat pos"
    using True assms by simp
  have "indexOf s q pos =
      (case find_from q (drop (nat pos) s) (nat pos) of Some k \<Rightarrow> int k | None \<Rightarrow> - 1)"
    unfolding indexOf_def Let_def eq ..
  then show ?thesis
    using find_from_first [OF le, of q]
    by (simp del: upt_Suc split: list.splits)
next
  case False
  then have eq: "nat (min (max pos 0) (int (length s))) = length s"
    using assms by simp
  have e: "[nat pos..<Suc (length s)] = []"
    using False by simp
  have n: "\<not> occurs_at s q (length s)"
    using assms by (auto simp: occurs_at_def)
  have "indexOf s q pos =
      (case find_from q (drop (length s) s) (length s) of Some k \<Rightarrow> int k | None \<Rightarrow> - 1)"
    unfolding indexOf_def Let_def eq ..
  then show ?thesis
    using assms by (simp add: e del: upt_Suc)
qed

lemma filter_upt_first:
  "filter P [a..<b] = j # F \<Longrightarrow> F = filter P [Suc j..<b]"
proof (induction "b - a" arbitrary: a)
  case 0
  then show ?case by simp
next
  case (Suc n)
  then have lt: "a < b" by simp
  then have u: "[a..<b] = a # [Suc a..<b]" by (simp add: upt_conv_Cons)
  show ?case
  proof (cases "P a")
    case True
    with Suc.prems u show ?thesis by auto
  next
    case False
    with Suc.prems u have "filter P [Suc a..<b] = j # F" by simp
    with Suc.hyps(1) [of "Suc a"] Suc.hyps(2) show ?thesis by simp
  qed
qed

lemma scan_offsets:
  "lq \<noteq> [] \<Longrightarrow> - 1 \<le> index \<Longrightarrow> length results < 50 \<Longrightarrow>
    scan lm lq c md q index results =
      results @ map (\<lambda>j. make_hit c md q (int j))
        (take (50 - length results)
           (filter (occurs_at lm lq) [nat (index + 1)..<Suc (length lm)]))"
proof (induction lm lq c md q index results rule: scan.induct)
  case (1 lm lq c md q index results)
  let ?F = "filter (occurs_at lm lq) [nat (index + 1)..<Suc (length lm)]"
  have i: "indexOf lm lq (index + 1) = (case ?F of [] \<Rightarrow> - 1 | j # js \<Rightarrow> int j)"
    by (rule indexOf_first) (use "1.prems" in auto)
  show ?case
  proof (cases ?F)
    case Nil
    then show ?thesis
      using i by (subst scan.simps) (simp add: Let_def del: upt_Suc)
  next
    case (Cons j F)
    then have ix: "indexOf lm lq (index + 1) = int j" using i by simp
    have F: "F = filter (occurs_at lm lq) [nat (int j + 1)..<Suc (length lm)]"
      using filter_upt_first [OF Cons] by (simp add: nat_add_distrib)
    show ?thesis
    proof (cases "50 \<le> length (results @ [make_hit c md q (int j)])")
      case True
      then have "50 - length results = 1" using "1.prems" by simp
      then show ?thesis
        using ix Cons True by (subst scan.simps) (simp add: Let_def del: upt_Suc)
    next
      case False
      have "scan lm lq c md q (int j) (results @ [make_hit c md q (int j)]) =
        (results @ [make_hit c md q (int j)]) @ map (\<lambda>j. make_hit c md q (int j))
        (take (50 - length (results @ [make_hit c md q (int j)]))
           (filter (occurs_at lm lq) [nat (int j + 1)..<Suc (length lm)]))"
        using "1.IH" [OF refl, of "results @ [make_hit c md q (int j)]"] ix False "1.prems"
        by (simp del: upt_Suc)
      moreover have "50 - length results = Suc (50 - length (results @ [make_hit c md q (int j)]))"
        using False by simp
      ultimately show ?thesis
        using ix Cons False F by (subst scan.simps) (simp add: Let_def del: upt_Suc)
    qed
  qed
qed

lemma find_from_empty: "find_from [] xs k = Some k"
  by (cases xs) simp_all

lemma indexOf_empty: "indexOf s [] pos = min (max pos 0) (int (length s))"
  by (simp add: indexOf_def Let_def find_from_empty)

lemma upt_0_Suc: "[0..<Suc k] = 0 # map Suc [0..<k]"
  by (simp add: upt_conv_Cons map_Suc_upt del: upt_Suc)

lemma scan_empty_query:
  "lq = [] \<Longrightarrow> - 1 \<le> index \<Longrightarrow> length results < 50 \<Longrightarrow>
    scan lm lq c md q index results =
      results @ map (\<lambda>i. make_hit c md q (min (index + 1 + int i) (int (length lm))))
        [0..<50 - length results]"
proof (induction lm lq c md q index results rule: scan.induct)
  case (1 lm lq c md q index results)
  let ?j = "min (index + 1) (int (length lm))"
  have ix: "indexOf lm lq (index + 1) = ?j"
    using "1.prems" by (simp add: indexOf_empty)
  have nn: "?j \<noteq> - 1" "- 1 \<le> ?j" using "1.prems" by simp_all
  show ?case
  proof (cases "50 \<le> length (results @ [make_hit c md q ?j])")
    case True
    then have "50 - length results = 1" using "1.prems" by simp
    then show ?thesis
      using ix nn True by (subst scan.simps) (simp add: Let_def)
  next
    case False
    then have n: "50 - length results = Suc (50 - length (results @ [make_hit c md q ?j]))"
      by simp
    have ih: "scan lm lq c md q ?j (results @ [make_hit c md q ?j]) =
        (results @ [make_hit c md q ?j]) @
          map (\<lambda>i. make_hit c md q (min (?j + 1 + int i) (int (length lm))))
            [0..<50 - length (results @ [make_hit c md q ?j])]"
      using "1.IH" [OF refl, of "results @ [make_hit c md q ?j]"] ix nn False "1.prems"
      by simp
    have a: "min (?j + 1 + int i) (int (length lm)) = min (index + 1 + int (Suc i)) (int (length lm))" for i
      by simp
    have u: "[0..<50 - length results] = 0 # map Suc [0..<50 - length (results @ [make_hit c md q ?j])]"
      unfolding n by (rule upt_0_Suc)
    have "scan lm lq c md q index results = scan lm lq c md q ?j (results @ [make_hit c md q ?j])"
      using ix nn False by (subst scan.simps) (simp add: Let_def)
    then show ?thesis
      unfolding ih u by (simp add: a comp_def del: upt_Suc)
  qed
qed

lemma scan_length:
  "length results < 50 \<Longrightarrow> length (scan lm lq c md q index results) \<le> 50"
proof (induction lm lq c md q index results rule: scan.induct)
  case (1 lm lq c md q index results)
  show ?case
  proof (cases "indexOf lm lq (index + 1) = - 1")
    case True
    then show ?thesis using "1.prems" by (subst scan.simps) simp
  next
    case False
    show ?thesis
    proof (cases "50 \<le> length (results @ [make_hit c md q (indexOf lm lq (index + 1))])")
      case True
      then show ?thesis
        using False "1.prems" by (subst scan.simps) (simp add: Let_def)
    next
      case f: False
      have "length (scan lm lq c md q (indexOf lm lq (index + 1))
              (results @ [make_hit c md q (indexOf lm lq (index + 1))])) \<le> 50"
        using "1.IH" [OF refl False refl] f by simp
      then show ?thesis
        using False f by (subst scan.simps) (simp add: Let_def)
    qed
  qed
qed

lemma find_from_too_long: "length xs < length q \<Longrightarrow> find_from q xs k = None"
proof (induction xs arbitrary: k)
  case Nil
  then show ?case by auto
next
  case (Cons x xs)
  have "take (length q) (x # xs) \<noteq> q"
  proof
    assume "take (length q) (x # xs) = q"
    from arg_cong [OF this, of length] Cons.prems show False by simp
  qed
  then show ?case using Cons by simp
qed

lemma indexOf_too_long: "length s < length q \<Longrightarrow> indexOf s q pos = - 1"
  by (simp add: indexOf_def Let_def find_from_too_long)

lemma scan_too_long:
  "length lm < length lq \<Longrightarrow> scan lm lq c md q index results = results"
  by (subst scan.simps) (simp add: indexOf_too_long)

lemma markdownOffset_make_hit: "markdownOffset (make_hit c md q i) = i"
  by (simp add: make_hit_def Let_def)

lemma search_chapters_length:
  "length results < 50 \<Longrightarrow>
   search_chapters sc entries q lq chapters results = Inr hits \<Longrightarrow> length hits \<le> 50"
proof (induction chapters arbitrary: results)
  case Nil
  then show ?case by simp
next
  case (Cons c chapters)
  show ?case
  proof (cases "getChapterContent entries (path c)")
    case (Inl e)
    with Cons.prems show ?thesis by simp
  next
    case (Inr content)
    let ?md = "htmlToMarkdown sc content"
    let ?rs = "scan (toLowerCase sc ?md) lq c ?md q (- 1) results"
    have b: "length ?rs \<le> 50" using Cons.prems(1) by (rule scan_length)
    show ?thesis
    proof (cases "50 \<le> length ?rs")
      case True
      with Cons.prems Inr b show ?thesis by (simp add: Let_def)
    next
      case False
      with Cons.prems Inr have "search_chapters sc entries q lq chapters ?rs = Inr hits"
        by (simp add: Let_def)
      with Cons.IH [of ?rs] False show ?thesis by simp
    qed
  qed
qed

lemma searchInBook_length:
  "searchInBook sc entries query = Inr hits \<Longrightarrow> length hits \<le> 50"
  using search_chapters_length [of "[]" sc entries query "toLowerCase sc query" _ hits]
  by (auto simp: searchInBook_def split: sum.splits)

lemma search_stops_at_cap:
  assumes "getChapterContent entries (path c) = Inr content"
      and "50 \<le> length (scan (toLowerCase sc (htmlToMarkdown sc content)) lq c
                          (htmlToMarkdown sc content) q (- 1) results)"
  shows "search_chapters sc entries q lq (c # rest) results =
           Inr (scan (toLowerCase sc (htmlToMarkdown sc content)) lq c
                  (htmlToMarkdown sc content) q (- 1) results)"
  using assms by (simp add: Let_def)

section \<open>Searching the sample archives\<close>

lemma book_contents:
  "getChapterContent book_archive (str ''OEBPS/text/ch01.html'') = Inr (str ''Aaa'')"
  "getChapterContent book_archive (str ''OEBPS/text/ch02.html'') = Inr (str ''b'')"
  by (simp_all add: getChapterContent_def getEpubFile_def book_archive_def sample_entries str_def)

lemma sample_markdown:
  "htmlToMarkdown sample_scanner (str ''Aaa'') = str ''Aaa''"
  "htmlToMarkdown sample_scanner (str ''b'') = str ''b''"
  "htmlToMarkdown sample_scanner [0x130] = [0x130]"
  by (simp_all add: htmlToMarkdown_def sample_scanner_def trim_def is_space_def str_def)

lemma sample_lower:
  "toLowerCase sample_scanner (str ''Aaa'') = str ''aaa''"
  "toLowerCase sample_scanner (str ''aA'') = str ''aa''"
  "toLowerCase sample_scanner (str ''AA'') = str ''aa''"
  "toLowerCase sample_scanner (str ''b'') = str ''b''"
  "toLowerCase sample_scanner [] = []"
  "toLowerCase sample_scanner [0x130] = [0x69, 0x307]"
  "toLowerCase sample_scanner [0x69, 0x307] = [0x69, 0x307]"
  by (simp_all add: toLowerCase_def sample_scanner_def sample_fold_def str_def)

lemma aa_in_aaa:
  "filter (occurs_at (str ''aaa'') (str ''aa'')) [0..<Suc (length (str ''aaa''))] = [0, 1]"
  by (simp add: occurs_at_def str_def)

lemma book_search:
  "searchInBook sample_scanner book_archive (str ''aA'') =
     Inr [\<lparr>chapterTitle = str ''Chapter One'', chapterPath = str ''OEBPS/text/ch01.html'',
            markdownOffset = 0, snippet = str ''Aaa''\<rparr>,
          \<lparr>chapterTitle = str ''Chapter One'', chapterPath = str ''OEBPS/text/ch01.html'',
            markdownOffset = 1, snippet = str ''Aaa''\<rparr>,
          \<lparr>chapterTitle = str ''Chapter One'', chapterPath = str ''OEBPS/text/ch01.html'',
            markdownOffset = 0, snippet = str ''Aaa''\<rparr>,
          \<lparr>chapterTitle = str ''Chapter One'', chapterPath = str ''OEBPS/text/ch01.html'',
            markdownOffset = 1, snippet = str ''Aaa''\<rparr>]"
  by (simp add: searchInBook_def sample_chapters)
     (simp add: getChapterContent_def getEpubFile_def book_archive_def sample_entries
        htmlToMarkdown_def toLowerCase_def sample_scanner_def sample_fold_def trim_def
        is_space_def scan.simps indexOf_def make_hit_def js_substring_def Let_def str_def)

lemma empty_book_chapters:
  "fst (getChapters sample_scanner empty_book_archive) = Inr []"
proof -
  have p: "openPackage sample_scanner empty_book_archive new_ZipReader
             = (Inr (str ''OEBPS/'', empty_opf), new_ZipReader)"
    by (simp add: openPackage_def empty_book_archive_def sample_entries sample_scanner_def
         sample_dir)
       (simp add: str_def)
  have t: "getTOCFromEntries sample_scanner empty_book_archive empty_opf (str ''OEBPS/'') = Inr []"
    by (simp add: getTOCFromEntries_def legacy_tier_def modern_tier_def or_else_def
         sample_scanner_def sample_docs)
  have s: "spine_of sample_scanner (str ''OEBPS/'') empty_opf = map Str []"
    by (simp add: spine_of_def sample_scanner_def sample_docs)
  show ?thesis
    using getChapters_success [OF p t s] by simp
qed

lemma nav_package:
  "openPackage sample_scanner nav_archive new_ZipReader
     = (Inr (str ''OEBPS/'', nav_opf), new_ZipReader)"
  by (simp add: openPackage_def nav_archive_def sample_entries sample_scanner_def sample_dir)
     (simp add: str_def)

lemma nav_toc:
  "getTOCFromEntries sample_scanner nav_archive nav_opf (str ''OEBPS/'')
     = Inr [\<lparr>title = str ''One'', path = str ''OEBPS/text/ch01.html''\<rparr>]"
  by (simp add: getTOCFromEntries_def nav_legacy nav_modern)

lemma nav_spine:
  "spine_of sample_scanner (str ''OEBPS/'') nav_opf = map Str [str ''OEBPS/text/ch01.html'']"
proof -
  have "manifest_of sample_scanner (str ''OEBPS/'') nav_opf
          = [str ''nav'' \<mapsto> str ''OEBPS/nav.xhtml'', str ''ch1'' \<mapsto> str ''OEBPS/text/ch01.html'']"
    by (simp add: manifest_of_def sample_scanner_def item_id_def item_href_def set_property_def
         normalizePath_def js_split_def normalize_step_def sample_docs Let_def)
  moreover have "itemrefMatches sample_scanner nav_opf = [str ''ch1'']"
    by (simp add: sample_scanner_def sample_docs)
  ultimately show ?thesis
    unfolding spine_of_def by (simp add: get_property_def truthy_def str_def)
qed

lemma nav_chapters:
  "fst (getChapters sample_scanner nav_archive)
     = Inr [\<lparr>title = str ''One'', path = str ''OEBPS/text/ch01.html''\<rparr>]"
  using getChapters_success [OF nav_package nav_toc nav_spine]
  by (simp add: chapter_of_def)

lemma nav_content:
  "getChapterContent nav_archive (str ''OEBPS/text/ch01.html'') = Inr (str ''Aaa'')"
  by (simp add: getChapterContent_def getEpubFile_def nav_archive_def sample_entries str_def)

lemma missing_chapters:
  "fst (getChapters sample_scanner first_chapter_missing_archive)
     = Inr [\<lparr>title = str ''ch01.html'', path = str ''OEBPS/text/ch01.html''\<rparr>,
            \<lparr>title = str ''ch02.html'', path = str ''OEBPS/text/ch02.html''\<rparr>,
            \<lparr>title = str ''ch01.html'', path = str ''OEBPS/text/ch01.html''\<rparr>]"
proof -
  have p: "openPackage sample_scanner first_chapter_missing_archive new_ZipReader
             = (Inr (str ''OEBPS/'', book_opf), new_ZipReader)"
    by (simp add: openPackage_def first_chapter_missing_archive_def sample_entries
         sample_scanner_def sample_dir)
       (simp add: str_def)
  have t: "getTOCFromEntries sample_scanner first_chapter_missing_archive book_opf (str ''OEBPS/'')
             = Inr []"
    by (simp add: getTOCFromEntries_def missing_ncx_legacy modern_tier_def missing_ncx_modern)
  show ?thesis
    using getChapters_success [OF p t sample_spine]
    by (simp add: chapter_of_def js_split_def str_def)
qed

lemma dotted_capital_chapters:
  "fst (getChapters sample_scanner dotted_capital_archive)
     = Inr [\<lparr>title = str ''ch01.html'', path = str ''OEBPS/text/ch01.html''\<rparr>]"
proof -
  have t: "getTOCFromEntries sample_scanner dotted_capital_archive scenario_opf (str ''OEBPS/'')
             = Inr []"
    by (simp add: getTOCFromEntries_def legacy_tier_def modern_tier_def or_else_def
         sample_scanner_def sample_docs)
  have "getChapters sample_scanner dotted_capital_archive =
          (Inr [\<lparr>title = str ''ch01.html'', path = str ''OEBPS/text/ch01.html''\<rparr>],
           \<lparr>closes = 1\<rparr>)"
  proof (rule scenario_chapters [where containerEntry = container_entry
          and containerXml = sample_container
          and opfEntry = "file_entry (str ''OEBPS/content.opf'') scenario_opf"
          and itemMatch = "IdFirst (str ''ch1'') (str ''text/ch01.html'')"])
    show "find (\<lambda>e. filename e = str ''META-INF/container.xml'') dotted_capital_archive
            = Some container_entry"
      by (simp add: dotted_capital_archive_def sample_entries)
    show "data container_entry = GetData (Some sample_container)"
      by (simp add: sample_entries)
    show "fullPathMatch sample_scanner sample_container = Some (str ''OEBPS/content.opf'')"
      by (simp add: sample_scanner_def)
    show "find (\<lambda>e. filename e = str ''OEBPS/content.opf'') dotted_capital_archive
            = Some (file_entry (str ''OEBPS/content.opf'') scenario_opf)"
      by (simp add: dotted_capital_archive_def sample_entries str_def)
    show "data (file_entry (str ''OEBPS/content.opf'') scenario_opf)
            = GetData (Some scenario_opf)"
      by (simp add: file_entry_def)
    show "itemMatches sample_scanner scenario_opf
            = [IdFirst (str ''ch1'') (str ''text/ch01.html'')]"
      by (simp add: sample_scanner_def)
    show "item_id (IdFirst (str ''ch1'') (str ''text/ch01.html'')) = str ''ch1''"
      by (simp add: item_id_def)
    show "item_href (IdFirst (str ''ch1'') (str ''text/ch01.html'')) = str ''text/ch01.html''"
      by (simp add: item_href_def)
    show "decodeURIComponent sample_scanner (str ''text/ch01.html'')
            = Some (str ''text/ch01.html'')"
      by (simp add: sample_scanner_def)
    show "itemrefMatches sample_scanner scenario_opf = [str ''ch1'']"
      by (simp add: sample_scanner_def)
    show "getTOCFromEntries sample_scanner dotted_capital_archive scenario_opf (str ''OEBPS/'')
            = Inr []"
      by (rule t)
  qed
  then show ?thesis by simp
qed

lemma dotted_capital_content:
  "getChapterContent dotted_capital_archive (str ''OEBPS/text/ch01.html'') = Inr [0x130]"
  by (simp add: getChapterContent_def getEpubFile_def dotted_capital_archive_def sample_entries
       str_def)

lemma dotted_capital_search:
  "searchInBook sample_scanner dotted_capital_archive [0x69, 0x307] =
     Inr [\<lparr>chapterTitle = str ''ch01.html'', chapterPath = str ''OEBPS/text/ch01.html'',
            markdownOffset = 0, snippet = [0x130]\<rparr>]"
  by (simp add: searchInBook_def dotted_capital_chapters)
     (simp add: getChapterContent_def getEpubFile_def dotted_capital_archive_def sample_entries
        htmlToMarkdown_def toLowerCase_def sample_scanner_def sample_fold_def trim_def
        is_space_def scan.simps indexOf_def make_hit_def js_substring_def Let_def str_def)

lemma search_skips_long_query:
  assumes "getChapterContent entries (path c) = Inr content"
      and "length (toLowerCase sc (htmlToMarkdown sc content)) < length lq"
      and "length results < 50"
  shows "search_chapters sc entries q lq (c # rest) results =
           search_chapters sc entries q lq rest results"
  using assms by (simp add: Let_def scan_too_long)

section \<open>At most fifty hits\<close>

text \<open>
  Claim C6, as amended. A search that returns has at most 50 hits. The inner loop
  started with fewer than 50 hits never goes beyond 50, and once a chapter has
  brought the total to 50 the search returns at once with these hits, whatever
  chapters remain (they are not read). A query whose lower-case form is longer
  than the lower-case form of the converted text of a chapter adds no hit for that
  chapter, and the search goes on with the next chapter; the lengths compared are
  those of the two lower-case forms, which is what the loop scans. A book with no
  chapters gives no hits.
\<close>

theorem search_hits_bounded:
  "(searchInBook sc entries query = Inr hits \<longrightarrow> length hits \<le> 50)
   \<and> (length results < 50 \<longrightarrow> length (scan lm lq c md q index results) \<le> 50)
   \<and> (getChapterContent entries (path c) = Inr content
       \<and> 50 \<le> length (scan (toLowerCase sc (htmlToMarkdown sc content)) lq c
                          (htmlToMarkdown sc content) q (- 1) results)
      \<longrightarrow> search_chapters sc entries q lq (c # rest) results =
           Inr (scan (toLowerCase sc (htmlToMarkdown sc content)) lq c
                  (htmlToMarkdown sc content) q (- 1) results))
   \<and> (length lm < length lq \<longrightarrow> scan lm lq c md q index results = results)
   \<and> (length (toLowerCase sc md) < length (toLowerCase sc query)
      \<longrightarrow> scan (toLowerCase sc md) (toLowerCase sc query) c md query (- 1) results = results)
   \<and> (getChapterContent entries (path c) = Inr content
       \<and> length (toLowerCase sc (htmlToMarkdown sc content)) < length (toLowerCase sc query)
       \<and> length results < 50
      \<longrightarrow> search_chapters sc entries query (toLowerCase sc query) (c # rest) results =
           search_chapters sc entries query (toLowerCase sc query) rest results)
   \<and> (fst (getChapters sc entries) = Inr [] \<longrightarrow> searchInBook sc entries query = Inr [])"
proof -
  have 0: "length lm < length lq \<longrightarrow> scan lm lq c md q index results = results"
    using scan_too_long by blast
  have 1: "searchInBook sc entries query = Inr hits \<longrightarrow> length hits \<le> 50"
    using searchInBook_length by blast
  have 2: "length results < 50 \<longrightarrow> length (scan lm lq c md q index results) \<le> 50"
    using scan_length by blast
  have 3: "getChapterContent entries (path c) = Inr content
       \<and> 50 \<le> length (scan (toLowerCase sc (htmlToMarkdown sc content)) lq c
                          (htmlToMarkdown sc content) q (- 1) results)
      \<longrightarrow> search_chapters sc entries q lq (c # rest) results =
           Inr (scan (toLowerCase sc (htmlToMarkdown sc content)) lq c
                  (htmlToMarkdown sc content) q (- 1) results)"
    using search_stops_at_cap by blast
  have 4: "length (toLowerCase sc md) < length (toLowerCase sc query)
      \<longrightarrow> scan (toLowerCase sc md) (toLowerCase sc query) c md query (- 1) results = results"
    by (simp add: scan_too_long)
  have 5: "fst (getChapters sc entries) = Inr [] \<longrightarrow> searchInBook sc entries query = Inr []"
    by (simp add: searchInBook_def)
  have 6: "getChapterContent entries (path c) = Inr content
       \<and> length (toLowerCase sc (htmlToMarkdown sc content)) < length (toLowerCase sc query)
       \<and> length results < 50
      \<longrightarrow> search_chapters sc entries query (toLowerCase sc query) (c # rest) results =
           search_chapters sc entries query (toLowerCase sc query) rest results"
    using search_skips_long_query [of entries c content sc "toLowerCase sc query" results
        query rest]
    by blast
  from 0 1 2 3 4 5 6 show ?thesis by blast
qed

theorem search_hits_bounded_witness:
  "searchInBook sample_scanner book_archive (str ''aA'') =
     Inr [\<lparr>chapterTitle = str ''Chapter One'', chapterPath = str ''OEBPS/text/ch01.html'',
            markdownOffset = 0, snippet = str ''Aaa''\<rparr>,
          \<lparr>chapterTitle = str ''Chapter One'', chapterPath = str ''OEBPS/text/ch01.html'',
            markdownOffset = 1, snippet = str ''Aaa''\<rparr>,
          \<lparr>chapterTitle = str ''Chapter One'', chapterPath = str ''OEBPS/text/ch01.html'',
            markdownOffset = 0, snippet = str ''Aaa''\<rparr>,
          \<lparr>chapterTitle = str ''Chapter One'', chapterPath = str ''OEBPS/text/ch01.html'',
            markdownOffset = 1, snippet = str ''Aaa''\<rparr>]
   \<and> getChapterContent book_archive (str ''OEBPS/text/ch01.html'') = Inr (str ''Aaa'')
   \<and> 50 \<le> length (scan (str ''aaa'') []
                       \<lparr>title = str ''Chapter One'', path = str ''OEBPS/text/ch01.html''\<rparr>
                       (str ''Aaa'') [] (- 1) [])
   \<and> length (scan (str ''aaa'') []
                \<lparr>title = str ''Chapter One'', path = str ''OEBPS/text/ch01.html''\<rparr>
                (str ''Aaa'') [] (- 1) []) \<le> 50
   \<and> search_chapters sample_scanner book_archive [] []
        [\<lparr>title = str ''Chapter One'', path = str ''OEBPS/text/ch01.html''\<rparr>,
         \<lparr>title = str ''ch02.html'', path = str ''OEBPS/text/ch02.html''\<rparr>] []
       = Inr (scan (str ''aaa'') []
                \<lparr>title = str ''Chapter One'', path = str ''OEBPS/text/ch01.html''\<rparr>
                (str ''Aaa'') [] (- 1) [])
   \<and> getChapterContent book_archive (str ''OEBPS/text/ch02.html'') = Inr (str ''b'')
   \<and> toLowerCase sample_scanner (htmlToMarkdown sample_scanner (str ''b'')) = str ''b''
   \<and> toLowerCase sample_scanner (str ''aA'') = str ''aa''
   \<and> length (str ''b'') < length (str ''aa'')
   \<and> scan (str ''b'') (str ''aa'')
        \<lparr>title = str ''ch02.html'', path = str ''OEBPS/text/ch02.html''\<rparr>
        (str ''b'') (str ''aA'') (- 1) [] = []
   \<and> search_chapters sample_scanner book_archive (str ''aA'') (str ''aa'')
        [\<lparr>title = str ''ch02.html'', path = str ''OEBPS/text/ch02.html''\<rparr>] [] = Inr []
   \<and> fst (getChapters sample_scanner empty_book_archive) = Inr []
   \<and> searchInBook sample_scanner empty_book_archive (str ''aA'') = Inr []"
proof -
  let ?c1 = "\<lparr>title = str ''Chapter One'', path = str ''OEBPS/text/ch01.html''\<rparr>"
  let ?c2 = "\<lparr>title = str ''ch02.html'', path = str ''OEBPS/text/ch02.html''\<rparr>"
  have cap: "50 \<le> length (scan (str ''aaa'') [] ?c1 (str ''Aaa'') [] (- 1) [])"
    using scan_empty_query [of "[]" "- 1" "[]" "(str ''aaa'')" ?c1 "(str ''Aaa'')" "[]"] by simp
  have content: "getChapterContent book_archive (path ?c1) = Inr (str ''Aaa'')"
    by (simp add: book_contents)
  have content2: "getChapterContent book_archive (path ?c2) = Inr (str ''b'')"
    by (simp add: book_contents)
  note T = search_hits_bounded [where sc = sample_scanner and entries = book_archive
      and results = "[]" and lm = "(str ''aaa'')" and lq = "[]" and c = ?c1 and md = "(str ''Aaa'')"
      and q = "[]" and index = "- 1" and content = "(str ''Aaa'')" and rest = "[?c2]"]
  have bound: "length (scan (str ''aaa'') [] ?c1 (str ''Aaa'') [] (- 1) []) \<le> 50"
    using T by simp
  have stop: "search_chapters sample_scanner book_archive [] [] [?c1, ?c2] []
       = Inr (scan (str ''aaa'') [] ?c1 (str ''Aaa'') [] (- 1) [])"
    using T content cap by (simp add: sample_markdown sample_lower)
  have lens: "length (str ''b'') < length (str ''aa'')"
    by (simp add: str_def)
  have low: "toLowerCase sample_scanner (htmlToMarkdown sample_scanner (str ''b'')) = str ''b''"
    by (simp add: sample_markdown sample_lower)
  note U = search_hits_bounded [where sc = sample_scanner and entries = book_archive
      and c = ?c2 and md = "(str ''b'')" and query = "(str ''aA'')" and results = "[]"
      and content = "(str ''b'')" and rest = "[]"]
  have long: "scan (str ''b'') (str ''aa'') ?c2 (str ''b'') (str ''aA'') (- 1) [] = []"
    using U lens by (simp add: sample_lower)
  have skip: "search_chapters sample_scanner book_archive (str ''aA'') (str ''aa'') [?c2] []
       = Inr []"
    using U lens content2 low by (simp add: sample_lower)
  have none: "searchInBook sample_scanner empty_book_archive (str ''aA'') = Inr []"
    using search_hits_bounded [where sc = sample_scanner and entries = empty_book_archive
      and query = "(str ''aA'')"] empty_book_chapters
    by blast
  show ?thesis
    using book_search book_contents cap bound stop lens low long skip empty_book_chapters none
      sample_lower(2)
    by simp
qed

text \<open>
  The lower-case form of a text can be longer than the text. A chapter whose
  converted text is the single code unit \<open>0x130\<close> (capital I with dot above) has
  the lower-case form \<open>0x69 0x307\<close>; the query \<open>0x69 0x307\<close>, which is longer than
  the converted text, is found in it at offset 0.
\<close>

theorem longer_query_found_counterexample:
  "getChapterContent dotted_capital_archive (str ''OEBPS/text/ch01.html'') = Inr [0x130]
   \<and> htmlToMarkdown sample_scanner [0x130] = [0x130]
   \<and> length [0x130 :: code_unit] < length [0x69 :: code_unit, 0x307]
   \<and> toLowerCase sample_scanner [0x130] = [0x69, 0x307]
   \<and> toLowerCase sample_scanner [0x69, 0x307] = [0x69, 0x307]
   \<and> searchInBook sample_scanner dotted_capital_archive [0x69, 0x307] =
       Inr [\<lparr>chapterTitle = str ''ch01.html'', chapterPath = str ''OEBPS/text/ch01.html'',
              markdownOffset = 0, snippet = [0x130]\<rparr>]"
  using dotted_capital_content sample_markdown(3) sample_lower(6,7) dotted_capital_search
  by simp

section \<open>Overlapping occurrences\<close>

text \<open>
  Claim C7. The inner loop searches forward from one position past the start of
  the previous match, so for a non-empty case-folded query it reports every
  position at which the query occurs in the case-folded text, in increasing order,
  up to the cap, overlapping occurrences included: the query \<open>aa\<close> in the text
  \<open>aaa\<close> gives hits at offsets 0 and 1.
\<close>

theorem overlapping_matches_reported:
  "(lq \<noteq> [] \<and> - 1 \<le> index \<and> length results < 50
      \<longrightarrow> scan lm lq c md q index results =
           results @ map (\<lambda>j. make_hit c md q (int j))
             (take (50 - length results)
                (filter (occurs_at lm lq) [nat (index + 1)..<Suc (length lm)])))
   \<and> (lq \<noteq> []
      \<longrightarrow> map markdownOffset (scan lm lq c md q (- 1) []) =
           map int (take 50 (filter (occurs_at lm lq) [0..<Suc (length lm)])))
   \<and> (indexOf lm lq (index + 1) \<noteq> - 1 \<and> length results < 49
      \<longrightarrow> scan lm lq c md q index results =
           scan lm lq c md q (indexOf lm lq (index + 1))
             (results @ [make_hit c md q (indexOf lm lq (index + 1))]))
   \<and> occurs_at (str ''aaa'') (str ''aa'') 0 \<and> occurs_at (str ''aaa'') (str ''aa'') 1
   \<and> map markdownOffset (scan (str ''aaa'') (str ''aa'') c (str ''aaa'') (str ''aa'') (- 1) []) = [0, 1]"
proof -
  have 1: "lq \<noteq> [] \<and> - 1 \<le> index \<and> length results < 50
      \<longrightarrow> scan lm lq c md q index results =
           results @ map (\<lambda>j. make_hit c md q (int j))
             (take (50 - length results)
                (filter (occurs_at lm lq) [nat (index + 1)..<Suc (length lm)]))"
    using scan_offsets [of lq index results lm c md q] by blast
  have 2: "map markdownOffset (scan lm' lq' c md' q' (- 1) []) =
           map int (take 50 (filter (occurs_at lm' lq') [0..<Suc (length lm')]))"
    if "lq' \<noteq> []" for lm' lq' md' q'
    using scan_offsets [of lq' "- 1" "[]" lm' c md' q'] that
    by (simp add: comp_def markdownOffset_make_hit del: upt_Suc)
  have 3: "indexOf lm lq (index + 1) \<noteq> - 1 \<and> length results < 49
      \<longrightarrow> scan lm lq c md q index results =
           scan lm lq c md q (indexOf lm lq (index + 1))
             (results @ [make_hit c md q (indexOf lm lq (index + 1))])"
    by (subst scan.simps) (simp add: Let_def)
  have 4: "occurs_at (str ''aaa'') (str ''aa'') 0 \<and> occurs_at (str ''aaa'') (str ''aa'') 1"
    by (simp add: occurs_at_def str_def)
  have 5: "map markdownOffset (scan (str ''aaa'') (str ''aa'') c (str ''aaa'') (str ''aa'') (- 1) []) = [0, 1]"
  proof -
    have "map markdownOffset (scan (str ''aaa'') (str ''aa'') c (str ''aaa'') (str ''aa'') (- 1) []) =
          map int (take 50 (filter (occurs_at (str ''aaa'') (str ''aa'')) [0..<Suc (length (str ''aaa''))]))"
      by (rule 2) (simp add: str_def)
    then show ?thesis unfolding aa_in_aaa by simp
  qed
  from 1 2 [of lq lm md q] 3 4 5 show ?thesis by blast
qed

theorem overlapping_matches_reported_witness:
  "(str ''aa'') \<noteq> []
   \<and> filter (occurs_at (str ''aaa'') (str ''aa'')) [0..<Suc (length (str ''aaa''))] = [0, 1]
   \<and> map markdownOffset
        (scan (str ''aaa'') (str ''aa'') \<lparr>title = str ''One'', path = str ''OEBPS/text/ch01.html''\<rparr>
           (str ''Aaa'') (str ''AA'') (- 1) []) = [0, 1]
   \<and> searchInBook sample_scanner nav_archive (str ''AA'') =
       Inr [\<lparr>chapterTitle = str ''One'', chapterPath = str ''OEBPS/text/ch01.html'',
              markdownOffset = 0, snippet = str ''Aaa''\<rparr>,
            \<lparr>chapterTitle = str ''One'', chapterPath = str ''OEBPS/text/ch01.html'',
              markdownOffset = 1, snippet = str ''Aaa''\<rparr>]"
proof -
  let ?c = "\<lparr>title = str ''One'', path = str ''OEBPS/text/ch01.html''\<rparr>"
  note T = overlapping_matches_reported [where lq = "(str ''aa'')" and lm = "(str ''aaa'')" and c = ?c
      and md = "(str ''Aaa'')" and q = "(str ''AA'')" and index = "- 1" and results = "[]"]
  have ne: "(str ''aa'') \<noteq> []" by (simp add: str_def)
  have s: "scan (str ''aaa'') (str ''aa'') ?c (str ''Aaa'') (str ''AA'') (- 1) [] =
             map (\<lambda>j. make_hit ?c (str ''Aaa'') (str ''AA'') (int j)) [0, 1]"
  proof -
    have "scan (str ''aaa'') (str ''aa'') ?c (str ''Aaa'') (str ''AA'') (- 1) [] =
           [] @ map (\<lambda>j. make_hit ?c (str ''Aaa'') (str ''AA'') (int j))
             (take (50 - length ([] :: hit list))
                (filter (occurs_at (str ''aaa'') (str ''aa'')) [nat (- 1 + 1)..<Suc (length (str ''aaa''))]))"
      by (rule T [THEN conjunct1, THEN mp]) (simp add: str_def)
    also have "nat (- 1 + 1) = 0" by simp
    finally show ?thesis unfolding aa_in_aaa by simp
  qed
  have a: "map markdownOffset (scan (str ''aaa'') (str ''aa'') ?c (str ''Aaa'') (str ''AA'') (- 1) []) = [0, 1]"
    unfolding s by (simp add: markdownOffset_make_hit)
  have b: "searchInBook sample_scanner nav_archive (str ''AA'') =
       Inr [\<lparr>chapterTitle = str ''One'', chapterPath = str ''OEBPS/text/ch01.html'',
              markdownOffset = 0, snippet = str ''Aaa''\<rparr>,
            \<lparr>chapterTitle = str ''One'', chapterPath = str ''OEBPS/text/ch01.html'',
              markdownOffset = 1, snippet = str ''Aaa''\<rparr>]"
    by (simp add: searchInBook_def nav_chapters nav_content sample_markdown sample_lower s)
       (simp add: make_hit_def js_substring_def Let_def str_def)
  show ?thesis using ne aa_in_aaa a b by blast
qed

section \<open>The empty query\<close>

text \<open>
  Claim C10, as amended. For a book whose chapter list is not empty and whose first
  chapter is an archive entry that can be read, a search for the empty string
  returns exactly 50 hits, all in the first chapter: \<open>indexOf\<close> of the empty string
  answers the start position clamped into the text, so the offsets are
  0, 1, ... up to the length of the lower-case text that is scanned and then that
  length again until the cap of 50 ends the loop.
\<close>

theorem empty_query_fills_cap:
  assumes "fst (getChapters sc entries) = Inr (c # cs)"
      and "getChapterContent entries (path c) = Inr content"
  shows "searchInBook sc entries [] =
           Inr (map (\<lambda>i. make_hit c (htmlToMarkdown sc content) []
                            (min (int i)
                               (int (length (toLowerCase sc (htmlToMarkdown sc content))))))
                  [0..<50])
       \<and> length (map (\<lambda>i. make_hit c (htmlToMarkdown sc content) []
                            (min (int i)
                               (int (length (toLowerCase sc (htmlToMarkdown sc content))))))
                  [0..<50]) = 50
       \<and> markdownOffset (make_hit c (htmlToMarkdown sc content) [] k) = k
       \<and> chapterPath (make_hit c (htmlToMarkdown sc content) [] k) = path c
       \<and> indexOf s [] pos = min (max pos 0) (int (length s))
       \<and> toLowerCase sc [] = []"
proof -
  let ?md = "htmlToMarkdown sc content"
  let ?lm = "toLowerCase sc ?md"
  have s: "scan ?lm [] c ?md [] (- 1) [] =
             map (\<lambda>i. make_hit c ?md [] (min (int i) (int (length ?lm)))) [0..<50]"
    using scan_empty_query [of "[]" "- 1" "[]" ?lm c ?md "[]"]
    by simp
  have "searchInBook sc entries [] =
          search_chapters sc entries [] [] (c # cs) []"
    using assms(1) by (simp add: searchInBook_def toLowerCase_def)
  also have "\<dots> = Inr (scan ?lm [] c ?md [] (- 1) [])"
    by (rule search_stops_at_cap [OF assms(2)]) (simp add: s)
  finally show ?thesis
    unfolding s by (simp add: indexOf_empty make_hit_def Let_def toLowerCase_def)
qed

theorem empty_query_fills_cap_witness:
  "fst (getChapters sample_scanner book_archive)
     = Inr [\<lparr>title = str ''Chapter One'', path = str ''OEBPS/text/ch01.html''\<rparr>,
            \<lparr>title = str ''ch02.html'', path = str ''OEBPS/text/ch02.html''\<rparr>,
            \<lparr>title = str ''Chapter One'', path = str ''OEBPS/text/ch01.html''\<rparr>]
   \<and> getChapterContent book_archive (str ''OEBPS/text/ch01.html'') = Inr (str ''Aaa'')
   \<and> searchInBook sample_scanner book_archive [] =
       Inr (map (\<lambda>i. make_hit \<lparr>title = str ''Chapter One'', path = str ''OEBPS/text/ch01.html''\<rparr>
                        (str ''Aaa'') [] (min (int i) 3)) [0..<50])"
proof -
  let ?c = "\<lparr>title = str ''Chapter One'', path = str ''OEBPS/text/ch01.html''\<rparr>"
  have content: "getChapterContent book_archive (path ?c) = Inr (str ''Aaa'')"
    by (simp add: book_contents)
  have "searchInBook sample_scanner book_archive [] =
          Inr (map (\<lambda>i. make_hit ?c (htmlToMarkdown sample_scanner (str ''Aaa'')) []
                            (min (int i)
                               (int (length (toLowerCase sample_scanner
                                  (htmlToMarkdown sample_scanner (str ''Aaa'')))))))
                  [0..<50])"
    using empty_query_fills_cap [OF sample_chapters content] by blast
  then have "searchInBook sample_scanner book_archive [] =
       Inr (map (\<lambda>i. make_hit ?c (str ''Aaa'') [] (min (int i) 3)) [0..<50])"
    unfolding sample_markdown sample_lower by (simp add: str_def)
  then show ?thesis using sample_chapters book_contents(1) by blast
qed

text \<open>
  A book with a chapter that resolves is not enough: when the first chapter of the
  spine is missing from the archive, reading it fails and the search fails with it,
  although the second chapter is present.
\<close>

theorem empty_query_first_chapter_missing_counterexample:
  "fst (getChapters sample_scanner first_chapter_missing_archive)
     = Inr [\<lparr>title = str ''ch01.html'', path = str ''OEBPS/text/ch01.html''\<rparr>,
            \<lparr>title = str ''ch02.html'', path = str ''OEBPS/text/ch02.html''\<rparr>,
            \<lparr>title = str ''ch01.html'', path = str ''OEBPS/text/ch01.html''\<rparr>]
   \<and> getChapterContent first_chapter_missing_archive (str ''OEBPS/text/ch02.html'') = Inr (str ''b'')
   \<and> searchInBook sample_scanner first_chapter_missing_archive []
       = Inl (FileNotFound (str ''OEBPS/text/ch01.html''))"
proof -
  have a: "getChapterContent first_chapter_missing_archive (str ''OEBPS/text/ch02.html'') = Inr (str ''b'')"
    by (simp add: getChapterContent_def getEpubFile_def first_chapter_missing_archive_def
         sample_entries str_def)
  have b: "getChapterContent first_chapter_missing_archive (str ''OEBPS/text/ch01.html'')
             = Inl (FileNotFound (str ''OEBPS/text/ch01.html''))"
    by (simp add: getChapterContent_def getEpubFile_def first_chapter_missing_archive_def
         sample_entries str_def)
  have "searchInBook sample_scanner first_chapter_missing_archive []
       = Inl (FileNotFound (str ''OEBPS/text/ch01.html''))"
    by (simp add: searchInBook_def missing_chapters b toLowerCase_def)
  then show ?thesis using missing_chapters a by blast
qed

end
